theory Spec2Isabelle
  imports Main "HOL-Library.Word"
begin

unbundle bit_operations_syntax

section \<open>Values of the program\<close>

text \<open>
  A Go \<open>[]byte\<close> is a list of 8-bit words, an \<open>int64\<close> (and its reinterpretation
  \<open>uint64(v)\<close>, which keeps the bits) a 64-bit word. A Go \<open>string\<close> is a sequence of
  bytes; \<open>[]byte(s)\<close> and \<open>string(b)\<close> convert without changing them.
\<close>

type_synonym bytes = "8 word list"
type_synonym int64 = "64 word"

definition bytes_of :: "string \<Rightarrow> bytes" where
  "bytes_of s = map of_char s"

definition string_of :: "bytes \<Rightarrow> string" where
  "string_of b = map (\<lambda>w. char_of (unat w)) b"

text \<open>
  The errors of the package (\<open>type Error string\<close> with its three constants), the errors
  of the key-value engine that the calls of the package can meet, and \<open>Failure\<close> for
  every error that comes from outside (the record encoding, the operating system, the disk).
\<close>

datatype error =
    ErrStateNotFound
  | ErrConfigNotFound
  | ErrSaveStateFailed
  | ErrDatabaseNotOpen
  | ErrBucketNameRequired
  | ErrIncompatibleValue
  | ErrKeyRequired
  | ErrKeyTooLarge
  | ErrValueTooLarge
  | Failure string

text \<open>
  A call either returns or panics. A method called on a nil pointer that reads a field of
  its receiver panics (nil pointer dereference); nothing in the package recovers.
\<close>

datatype 'a outcome = Returns 'a | Panics

subsection \<open>Records of the package\<close>

text \<open>\<open>Config\<close> of config.go; \<open>Duration\<close> is an \<open>int64\<close> of nanoseconds, \<open>uint\<close> a 64-bit word.\<close>

record Config =
  PollInterval :: int64
  DownloadTo :: string
  DownloadFrom :: int64
  SegmentsPerFile :: "64 word"
  MaxParallelFiles :: "64 word"
  OAuth2Token :: string
  WatchTorrentsFolder :: bool
  TorrentsFolder :: string
  IsPaused :: bool
  DeleteRemoteFile :: bool

definition defaultSegmentsPerFile :: "64 word" where "defaultSegmentsPerFile = 3"
definition defaultMaxParallelFiles :: "64 word" where "defaultMaxParallelFiles = 2"
definition defaultDownloadFrom :: int64 where "defaultDownloadFrom = - 1"
definition defaultPollInterval :: int64 where "defaultPollInterval = 2 * 60000000000"

text \<open>
  The declaration of \<open>State\<close> is not among the sources. The store reads two of its fields,
  \<open>FileID\<close> (an \<open>int64\<close>) and \<open>IsHidden\<close>; the fields it does not read are the type
  parameter \<open>'x\<close>.
\<close>

record 'x State =
  FileID :: int64
  IsHidden :: bool
  Transfer :: 'x

text \<open>
  The record encoding is \<open>encoding/gob\<close> of the Go standard library, taken as a parameter:
  \<open>Encode\<close> is \<open>gob.NewEncoder(&value).Encode(x)\<close> followed by \<open>value.Bytes()\<close>,
  \<open>Decode\<close> is \<open>gob.NewDecoder(bytes.NewReader(v)).Decode(&x)\<close> into a zero value.
\<close>

record 'a gob =
  Encode :: "'a \<Rightarrow> error + bytes"
  Decode :: "bytes \<Rightarrow> error + 'a"

section \<open>The key-value engine\<close>

text \<open>
  The engine (\<open>github.com/boltdb/bolt\<close>) is a dependency, not part of the sources. A bucket
  is modelled as the list of its entries in the order its cursor walks them: ascending in
  \<open>bytes.Compare\<close> on the keys. An entry is a value or a nested bucket.
\<close>

datatype node = Leaf bytes | Nested "(bytes \<times> node) list"

type_synonym bucket = "(bytes \<times> node) list"

fun bytes_less :: "bytes \<Rightarrow> bytes \<Rightarrow> bool" where
  "bytes_less [] [] = False"
| "bytes_less [] (y # ys) = True"
| "bytes_less (x # xs) [] = False"
| "bytes_less (x # xs) (y # ys) = (x < y \<or> (x = y \<and> bytes_less xs ys))"

text \<open>\<open>Bucket.Bucket\<close>: the nested bucket of that name, nil when there is none or the key holds a value.\<close>

definition bucket_Bucket :: "bucket \<Rightarrow> bytes \<Rightarrow> bucket option" where
  "bucket_Bucket b name = (case map_of b name of Some (Nested c) \<Rightarrow> Some c | _ \<Rightarrow> None)"

text \<open>\<open>Bucket.Get\<close>: the value of the key, nil when there is none or the key holds a nested bucket.\<close>

definition bucket_Get :: "bucket \<Rightarrow> bytes \<Rightarrow> bytes option" where
  "bucket_Get b key = (case map_of b key of Some (Leaf v) \<Rightarrow> Some v | _ \<Rightarrow> None)"

text \<open>Insertion at the key's place in the order, over an entry of the same key.\<close>

fun upsert :: "bytes \<Rightarrow> node \<Rightarrow> bucket \<Rightarrow> bucket" where
  "upsert k n [] = [(k, n)]"
| "upsert k n ((k', n') # r) =
     (if bytes_less k k' then (k, n) # (k', n') # r
      else if k = k' then (k, n) # r
      else (k', n') # upsert k n r)"

definition MaxKeySize :: nat where "MaxKeySize = 32768"
definition MaxValueSize :: nat where "MaxValueSize = 2 ^ 31 - 2"

text \<open>\<open>Bucket.Put\<close> in a writable transaction, with its checks in their order.\<close>

definition bucket_Put :: "bucket \<Rightarrow> bytes \<Rightarrow> bytes \<Rightarrow> error + bucket" where
  "bucket_Put b key val =
     (if length key = 0 then Inl ErrKeyRequired
      else if length key > MaxKeySize then Inl ErrKeyTooLarge
      else if length val > MaxValueSize then Inl ErrValueTooLarge
      else (case map_of b key of
              Some (Nested c) \<Rightarrow> Inl ErrIncompatibleValue
            | _ \<Rightarrow> Inr (upsert key (Leaf val) b)))"

text \<open>
  \<open>CreateBucketIfNotExists\<close> in a writable transaction: the parent after the call and the
  bucket returned. An existing bucket is returned as it is.
\<close>

definition bucket_CreateBucketIfNotExists :: "bucket \<Rightarrow> bytes \<Rightarrow> error + bucket \<times> bucket" where
  "bucket_CreateBucketIfNotExists b name =
     (if length name = 0 then Inl ErrBucketNameRequired
      else (case map_of b name of
              Some (Nested c) \<Rightarrow> Inr (b, c)
            | Some (Leaf v) \<Rightarrow> Inl ErrIncompatibleValue
            | None \<Rightarrow> Inr (upsert name (Nested []) b, [])))"

text \<open>
  A bucket handle is a reference into the transaction: what the code writes through the
  handle of a nested bucket is seen from its parent. In the model the changed nested bucket
  is put back in its place.
\<close>

fun put_back :: "bucket \<Rightarrow> bytes \<Rightarrow> bucket \<Rightarrow> bucket" where
  "put_back [] name c = []"
| "put_back ((k, n) # r) name c = (if k = name then (k, Nested c) # r else (k, n) # put_back r name c)"

text \<open>
  The pairs a cursor yields from \<open>First\<close> on through \<open>Next\<close>; the value beside the key of
  a nested bucket is nil, which reads as no bytes.
\<close>

fun node_value :: "node \<Rightarrow> bytes" where
  "node_value (Leaf v) = v"
| "node_value (Nested c) = []"

definition cursor_entries :: "bucket \<Rightarrow> (bytes \<times> bytes) list" where
  "cursor_entries b = map (\<lambda>(k, n). (k, node_value n)) b"

text \<open>
  The handle: the root bucket as of the last commit, whether the handle is open, and what
  the environment does to it: the error a commit meets when it writes the file (none when
  the disk is well) and the error \<open>Close\<close> meets when it releases the file.
\<close>

record bolt_DB =
  db_root :: bucket
  db_opened :: bool
  commit_fault :: "error option"
  close_fault :: "error option"

text \<open>
  \<open>DB.Update\<close>: the function runs on the root; its error or its panic rolls the
  transaction back, its success commits.
\<close>

definition db_Update :: "bolt_DB \<Rightarrow> (bucket \<Rightarrow> (error + bucket) outcome) \<Rightarrow> (bolt_DB \<times> error option) outcome" where
  "db_Update d fn =
     (if \<not> db_opened d then Returns (d, Some ErrDatabaseNotOpen)
      else (case fn (db_root d) of
              Panics \<Rightarrow> Panics
            | Returns (Inl err) \<Rightarrow> Returns (d, Some err)
            | Returns (Inr tx) \<Rightarrow>
                (case commit_fault d of
                   Some err \<Rightarrow> Returns (d, Some err)
                 | None \<Rightarrow> Returns (d\<lparr>db_root := tx\<rparr>, None))))"

text \<open>\<open>DB.View\<close>: \<open>Inl\<close> is the error of beginning the transaction, \<open>Inr\<close> what the function did.\<close>

definition db_View :: "bolt_DB \<Rightarrow> (bucket \<Rightarrow> 'r outcome) \<Rightarrow> (error + 'r) outcome" where
  "db_View d fn =
     (if \<not> db_opened d then Returns (Inl ErrDatabaseNotOpen)
      else (case fn (db_root d) of Panics \<Rightarrow> Panics | Returns r \<Rightarrow> Returns (Inr r)))"

definition db_Close :: "bolt_DB \<Rightarrow> bolt_DB \<times> error option" where
  "db_Close d = (if \<not> db_opened d then (d, None) else (d\<lparr>db_opened := False\<rparr>, close_fault d))"

section \<open>The store\<close>

definition downloadItemsBucket :: bytes where
  "downloadItemsBucket = bytes_of ''download-items''"

definition watchedTorrentsBucket :: bytes where
  "watchedTorrentsBucket = bytes_of ''watched-torrents''"

definition defaultsBucket :: bytes where
  "defaultsBucket = bytes_of ''defaults''"

text \<open>\<open>db\<close> is a pointer: \<open>None\<close> is nil, as \<open>NewStore\<close> leaves it.\<close>

record Store =
  path :: string
  db :: "bolt_DB option"

definition NewStore :: "string \<Rightarrow> Store" where
  "NewStore p = \<lparr>path = p, db = None\<rparr>"

text \<open>\<open>binary.BigEndian.PutUint64(b, uint64(v))\<close> on eight bytes.\<close>

definition itob :: "int64 \<Rightarrow> bytes" where
  "itob v = [ucast (drop_bit 56 v), ucast (drop_bit 48 v), ucast (drop_bit 40 v),
             ucast (drop_bit 32 v), ucast (drop_bit 24 v), ucast (drop_bit 16 v),
             ucast (drop_bit 8 v), ucast v]"

text \<open>
  \<open>Open\<close>. \<open>bolt_Open\<close> is what \<open>bolt.Open\<close> gives for the path: an error (the lock was
  not released within the timeout, the file cannot be opened) or the handle.
\<close>

definition Store_Open :: "(string \<Rightarrow> error + bolt_DB) \<Rightarrow> Store \<Rightarrow> (Store \<times> error option) outcome" where
  "Store_Open bolt_Open s =
     (case bolt_Open (path s) of
        Inl err \<Rightarrow> Returns (s, Some err)
      | Inr d \<Rightarrow>
          (case db_Update d (\<lambda>tx. case bucket_CreateBucketIfNotExists tx defaultsBucket of
                                     Inl err \<Rightarrow> Returns (Inl err)
                                   | Inr (tx', _) \<Rightarrow> Returns (Inr tx')) of
             Panics \<Rightarrow> Panics
           | Returns (d', Some err) \<Rightarrow>
               (case db_Close d' of (d'', cerr) \<Rightarrow> Returns (s\<lparr>db := Some d''\<rparr>, cerr))
           | Returns (d', None) \<Rightarrow> Returns (s\<lparr>db := Some d'\<rparr>, None)))"

definition Store_Close :: "Store \<Rightarrow> (Store \<times> error option) outcome" where
  "Store_Close s =
     (case db s of
        None \<Rightarrow> Panics
      | Some d \<Rightarrow> (case db_Close d of (d', err) \<Rightarrow> Returns (s\<lparr>db := Some d'\<rparr>, err)))"

definition Store_Path :: "Store \<Rightarrow> string" where
  "Store_Path s = path s"

text \<open>\<open>s.db.Update(fn)\<close> and \<open>s.db.View(fn)\<close>: both read a field of \<open>s.db\<close> first.\<close>

definition Store_db_Update :: "Store \<Rightarrow> (bucket \<Rightarrow> (error + bucket) outcome) \<Rightarrow> (Store \<times> error option) outcome" where
  "Store_db_Update s fn =
     (case db s of
        None \<Rightarrow> Panics
      | Some d \<Rightarrow>
          (case db_Update d fn of
             Panics \<Rightarrow> Panics
           | Returns (d', err) \<Rightarrow> Returns (s\<lparr>db := Some d'\<rparr>, err)))"

definition Store_db_View :: "Store \<Rightarrow> (bucket \<Rightarrow> 'r outcome) \<Rightarrow> (error + 'r) outcome" where
  "Store_db_View s fn = (case db s of None \<Rightarrow> Panics | Some d \<Rightarrow> db_View d fn)"

subsection \<open>Provisioning\<close>

fun CreateBuckets_loop :: "bucket \<Rightarrow> bytes list \<Rightarrow> error + bucket" where
  "CreateBuckets_loop userBkt [] = Inr userBkt"
| "CreateBuckets_loop userBkt (bkt # buckets) =
     (case bucket_CreateBucketIfNotExists userBkt bkt of
        Inl err \<Rightarrow> Inl err
      | Inr (userBkt', _) \<Rightarrow> CreateBuckets_loop userBkt' buckets)"

definition CreateBuckets_tx :: "string \<Rightarrow> bucket \<Rightarrow> (error + bucket) outcome" where
  "CreateBuckets_tx forUser tx =
     (case bucket_CreateBucketIfNotExists tx (bytes_of forUser) of
        Inl err \<Rightarrow> Returns (Inl err)
      | Inr (tx', userBkt) \<Rightarrow>
          (case CreateBuckets_loop userBkt [downloadItemsBucket, watchedTorrentsBucket] of
             Inl err \<Rightarrow> Returns (Inl err)
           | Inr userBkt' \<Rightarrow> Returns (Inr (put_back tx' (bytes_of forUser) userBkt'))))"

definition Store_CreateBuckets :: "string \<Rightarrow> Store \<Rightarrow> (Store \<times> error option) outcome" where
  "Store_CreateBuckets forUser s = Store_db_Update s (CreateBuckets_tx forUser)"

subsection \<open>Download states\<close>

text \<open>
  \<open>SaveState\<close>. \<open>userBkt.Bucket\<close> reads its receiver, so a nil \<open>userBkt\<close> panics at once;
  a nil \<open>downloadsBkt\<close> panics at \<open>Put\<close>, after the encoding. \<open>state\<close> is taken non-nil.
\<close>

definition SaveState_tx :: "'x State gob \<Rightarrow> 'x State \<Rightarrow> string \<Rightarrow> bucket \<Rightarrow> (error + bucket) outcome" where
  "SaveState_tx g state forUser tx =
     (case bucket_Bucket tx (bytes_of forUser) of
        None \<Rightarrow> Panics
      | Some userBkt \<Rightarrow>
          (let downloadsBkt = bucket_Bucket userBkt downloadItemsBucket;
               key = itob (FileID state)
           in case Encode g state of
                Inl err \<Rightarrow> Returns (Inl err)
              | Inr val \<Rightarrow>
                  (case downloadsBkt of
                     None \<Rightarrow> Panics
                   | Some dl \<Rightarrow>
                       (case bucket_Put dl key val of
                          Inl err \<Rightarrow> Returns (Inl err)
                        | Inr dl' \<Rightarrow>
                            Returns (Inr (put_back tx (bytes_of forUser)
                                           (put_back userBkt downloadItemsBucket dl')))))))"

definition Store_SaveState :: "'x State gob \<Rightarrow> 'x State \<Rightarrow> string \<Rightarrow> Store \<Rightarrow> (Store \<times> error option) outcome" where
  "Store_SaveState g state forUser s = Store_db_Update s (SaveState_tx g state forUser)"

text \<open>
  \<open>State\<close>; \<open>fid\<close> is its parameter \<open>id\<close>. The pointer returned beside a non-nil error (to a zero or partly decoded value)
  is not modelled: the result is the error or the state.
\<close>

definition State_tx :: "'x State gob \<Rightarrow> int64 \<Rightarrow> string \<Rightarrow> bucket \<Rightarrow> (error + 'x State) outcome" where
  "State_tx g fid forUser tx =
     (case bucket_Bucket tx (bytes_of forUser) of
        None \<Rightarrow> Panics
      | Some userBkt \<Rightarrow>
          (case bucket_Bucket userBkt downloadItemsBucket of
             None \<Rightarrow> Panics
           | Some downloadsBkt \<Rightarrow>
               (case bucket_Get downloadsBkt (itob fid) of
                  None \<Rightarrow> Returns (Inl ErrStateNotFound)
                | Some val \<Rightarrow> Returns (Decode g val))))"

fun join_view :: "(error + error + 'a) outcome \<Rightarrow> (error + 'a) outcome" where
  "join_view Panics = Panics"
| "join_view (Returns (Inl err)) = Returns (Inl err)"
| "join_view (Returns (Inr r)) = Returns r"

definition Store_State :: "'x State gob \<Rightarrow> int64 \<Rightarrow> string \<Rightarrow> Store \<Rightarrow> (error + 'x State) outcome" where
  "Store_State g fid forUser s = join_view (Store_db_View s (State_tx g fid forUser))"

text \<open>\<open>States\<close> returns the slice it has built so far beside the error.\<close>

fun States_loop :: "'x State gob \<Rightarrow> (bytes \<times> bytes) list \<Rightarrow> 'x State list \<Rightarrow> 'x State list \<times> error option" where
  "States_loop g [] states = (states, None)"
| "States_loop g ((k, v) # rest) states =
     (case Decode g v of
        Inl err \<Rightarrow> (states, Some err)
      | Inr state \<Rightarrow>
          (if IsHidden state then States_loop g rest states
           else States_loop g rest (states @ [state])))"

definition States_tx :: "'x State gob \<Rightarrow> string \<Rightarrow> bucket \<Rightarrow> ('x State list \<times> error option) outcome" where
  "States_tx g forUser tx =
     (case bucket_Bucket tx (bytes_of forUser) of
        None \<Rightarrow> Panics
      | Some userBkt \<Rightarrow>
          (case bucket_Bucket userBkt downloadItemsBucket of
             None \<Rightarrow> Panics
           | Some downloadsBkt \<Rightarrow> Returns (States_loop g (cursor_entries downloadsBkt) [])))"

definition Store_States :: "'x State gob \<Rightarrow> string \<Rightarrow> Store \<Rightarrow> ('x State list \<times> error option) outcome" where
  "Store_States g forUser s =
     (if forUser = [] then Returns ([], None)
      else (case Store_db_View s (States_tx g forUser) of
              Panics \<Rightarrow> Panics
            | Returns (Inl err) \<Rightarrow> Returns ([], Some err)
            | Returns (Inr r) \<Rightarrow> Returns r))"

subsection \<open>Configuration\<close>

text \<open>
  The host: what \<open>user.Current()\<close> gives (its error, or the \<open>HomeDir\<close> of the account)
  and \<open>filepath.Join\<close>.
\<close>

record host =
  user_Current :: "error + string"
  filepath_Join :: "string \<Rightarrow> string \<Rightarrow> string"

definition Store_DefaultConfig :: "host \<Rightarrow> error + Config" where
  "Store_DefaultConfig h =
     (case user_Current h of
        Inl err \<Rightarrow> Inl err
      | Inr HomeDir \<Rightarrow>
          Inr \<lparr>PollInterval = defaultPollInterval,
               DownloadTo = filepath_Join h HomeDir ''putio-sync'',
               DownloadFrom = defaultDownloadFrom,
               SegmentsPerFile = defaultSegmentsPerFile,
               MaxParallelFiles = defaultMaxParallelFiles,
               OAuth2Token = [],
               WatchTorrentsFolder = False,
               TorrentsFolder = [],
               IsPaused = True,
               DeleteRemoteFile = False\<rparr>)"

definition Config_tx :: "Config gob \<Rightarrow> string \<Rightarrow> bucket \<Rightarrow> (error + Config) outcome" where
  "Config_tx g forUser tx =
     (case bucket_Bucket tx (bytes_of forUser) of
        None \<Rightarrow> Panics
      | Some userBkt \<Rightarrow>
          (case bucket_Get userBkt (bytes_of ''config'') of
             None \<Rightarrow> Returns (Inl ErrConfigNotFound)
           | Some val \<Rightarrow> Returns (Decode g val)))"

definition Store_Config :: "host \<Rightarrow> Config gob \<Rightarrow> string \<Rightarrow> Store \<Rightarrow> (error + Config) outcome" where
  "Store_Config h g forUser s =
     (if forUser = [] then Returns (Store_DefaultConfig h)
      else (case join_view (Store_db_View s (Config_tx g forUser)) of
              Panics \<Rightarrow> Panics
            | Returns (Inl err) \<Rightarrow>
                (if err = ErrConfigNotFound then Returns (Store_DefaultConfig h)
                 else Returns (Inl err))
            | Returns (Inr cfg) \<Rightarrow> Returns (Inr cfg)))"

definition SaveConfig_tx :: "Config gob \<Rightarrow> Config \<Rightarrow> string \<Rightarrow> bucket \<Rightarrow> (error + bucket) outcome" where
  "SaveConfig_tx g cfg forUser tx =
     (let userBkt = bucket_Bucket tx (bytes_of forUser)
      in case Encode g cfg of
           Inl err \<Rightarrow> Returns (Inl err)
         | Inr val \<Rightarrow>
             (case userBkt of
                None \<Rightarrow> Panics
              | Some ub \<Rightarrow>
                  (case bucket_Put ub (bytes_of ''config'') val of
                     Inl err \<Rightarrow> Returns (Inl err)
                   | Inr ub' \<Rightarrow> Returns (Inr (put_back tx (bytes_of forUser) ub')))))"

definition Store_SaveConfig :: "Config gob \<Rightarrow> Config \<Rightarrow> string \<Rightarrow> Store \<Rightarrow> (Store \<times> error option) outcome" where
  "Store_SaveConfig g cfg forUser s = Store_db_Update s (SaveConfig_tx g cfg forUser)"

subsection \<open>The current user\<close>

definition CurrentUser_tx :: "bucket \<Rightarrow> string outcome" where
  "CurrentUser_tx tx =
     (case bucket_Bucket tx defaultsBucket of
        None \<Rightarrow> Panics
      | Some bkt \<Rightarrow>
          (case bucket_Get bkt (bytes_of ''current-user'') of
             None \<Rightarrow> Returns []
           | Some val \<Rightarrow> Returns (string_of val)))"

definition Store_CurrentUser :: "Store \<Rightarrow> (error + string) outcome" where
  "Store_CurrentUser s = Store_db_View s CurrentUser_tx"

definition SaveCurrentUser_tx :: "string \<Rightarrow> bucket \<Rightarrow> (error + bucket) outcome" where
  "SaveCurrentUser_tx username tx =
     (case bucket_Bucket tx defaultsBucket of
        None \<Rightarrow> Panics
      | Some bkt \<Rightarrow>
          (case bucket_Put bkt (bytes_of ''current-user'') (bytes_of username) of
             Inl err \<Rightarrow> Returns (Inl err)
           | Inr bkt' \<Rightarrow> Returns (Inr (put_back tx defaultsBucket bkt'))))"

definition Store_SaveCurrentUser :: "string \<Rightarrow> Store \<Rightarrow> (Store \<times> error option) outcome" where
  "Store_SaveCurrentUser username s = Store_db_Update s (SaveCurrentUser_tx username)"

section \<open>What the operations are measured against\<close>

subsection \<open>Digits\<close>

text \<open>
  The eight bytes of \<open>itob v\<close> are the base-256 digits of the unsigned value of \<open>v\<close>, most
  significant first, and the order of \<open>bytes.Compare\<close> on digit lists of one length is the
  order of the numbers.
\<close>

fun be_digits :: "nat \<Rightarrow> nat \<Rightarrow> nat list" where
  "be_digits 0 x = []"
| "be_digits (Suc n) x = (x div 256 ^ n mod 256) # be_digits n x"

fun nat_lex :: "nat list \<Rightarrow> nat list \<Rightarrow> bool" where
  "nat_lex [] [] = False"
| "nat_lex [] (y # ys) = True"
| "nat_lex (x # xs) [] = False"
| "nat_lex (x # xs) (y # ys) = (x < y \<or> (x = y \<and> nat_lex xs ys))"

subsection \<open>Records that survive the encoding\<close>

text \<open>
  A valid record: the encoder accepts it, the encoding is within what the engine stores
  under one key, and the decoder gives the record back.
\<close>

definition valid_for :: "'a gob \<Rightarrow> 'a \<Rightarrow> bool" where
  "valid_for g x =
     (case Encode g x of
        Inl err \<Rightarrow> False
      | Inr v \<Rightarrow> length v \<le> MaxValueSize \<and> Decode g v = Inr x)"

definition encoded :: "'a gob \<Rightarrow> 'a \<Rightarrow> bytes" where
  "encoded g x = (case Encode g x of Inl err \<Rightarrow> [] | Inr v \<Rightarrow> v)"

subsection \<open>The listing as the specification describes it\<close>

text \<open>
  One record for each identifier, the last one saved, in ascending order of the identifier
  read as the key reads it (unsigned).
\<close>

fun ins :: "'x State \<Rightarrow> 'x State list \<Rightarrow> 'x State list" where
  "ins st [] = [st]"
| "ins st (x # r) =
     (if FileID st < FileID x then st # x # r
      else if FileID st = FileID x then st # r
      else x # ins st r)"

definition saved :: "'x State list \<Rightarrow> 'x State list" where
  "saved sts = foldl (\<lambda>l st. ins st l) [] sts"

definition stored :: "'x State gob \<Rightarrow> 'x State \<Rightarrow> bytes \<times> node" where
  "stored g st = (itob (FileID st), Leaf (encoded g st))"

text \<open>Saving the records of a list one after the other, each call returning nil.\<close>

fun SaveState_all :: "'x State gob \<Rightarrow> 'x State list \<Rightarrow> string \<Rightarrow> Store \<Rightarrow> Store option" where
  "SaveState_all g [] forUser s = Some s"
| "SaveState_all g (st # sts) forUser s =
     (case Store_SaveState g st forUser s of
        Returns (s', None) \<Rightarrow> SaveState_all g sts forUser s'
      | _ \<Rightarrow> None)"

text \<open>The records among the pairs of a cursor that decode and are not hidden.\<close>

fun visible :: "'x State gob \<Rightarrow> (bytes \<times> bytes) list \<Rightarrow> 'x State list" where
  "visible g [] = []"
| "visible g ((k, v) # rest) =
     (case Decode g v of
        Inl err \<Rightarrow> visible g rest
      | Inr st \<Rightarrow> (if IsHidden st then visible g rest else st # visible g rest))"

fun decodes :: "'x State gob \<Rightarrow> bytes \<times> bytes \<Rightarrow> bool" where
  "decodes g (k, v) = (case Decode g v of Inl err \<Rightarrow> False | Inr st \<Rightarrow> True)"

subsection \<open>What a transaction finds in the store\<close>

text \<open>
  The bucket of a user as a transaction on the open handle finds it, and the
  \<open>download-items\<close> bucket inside it; \<open>None\<close> where the code would hold nil.
\<close>

definition namespace :: "Store \<Rightarrow> string \<Rightarrow> bucket option" where
  "namespace s forUser =
     (case db s of
        None \<Rightarrow> None
      | Some d \<Rightarrow> (if db_opened d then bucket_Bucket (db_root d) (bytes_of forUser) else None))"

definition download_items :: "Store \<Rightarrow> string \<Rightarrow> bucket option" where
  "download_items s forUser =
     (case namespace s forUser of
        None \<Rightarrow> None
      | Some userBkt \<Rightarrow> bucket_Bucket userBkt downloadItemsBucket)"

text \<open>A user is provisioned when the three buckets that \<open>CreateBuckets\<close> makes are there.\<close>

definition provisioned :: "Store \<Rightarrow> string \<Rightarrow> bool" where
  "provisioned s forUser =
     (case namespace s forUser of
        None \<Rightarrow> False
      | Some userBkt \<Rightarrow>
          bucket_Bucket userBkt downloadItemsBucket \<noteq> None
          \<and> bucket_Bucket userBkt watchedTorrentsBucket \<noteq> None)"

text \<open>The disk is well: a commit on the handle of the store meets no error.\<close>

definition commits :: "Store \<Rightarrow> bool" where
  "commits s = (case db s of None \<Rightarrow> False | Some d \<Rightarrow> commit_fault d = None)"

subsection \<open>Sample values\<close>

text \<open>A database file that did not exist, as \<open>bolt.Open\<close> creates it, on a disk that is well.\<close>

definition new_file :: bolt_DB where
  "new_file = \<lparr>db_root = [], db_opened = True, commit_fault = None, close_fault = None\<rparr>"

text \<open>The same file on a disk that fails when a commit writes to it.\<close>

definition faulty_disk_file :: bolt_DB where
  "faulty_disk_file = new_file\<lparr>commit_fault := Some (Failure ''input/output error'')\<rparr>"

text \<open>The store after \<open>Open\<close> on the new file, and after \<open>CreateBuckets\<close> for one user.\<close>

definition opened_Store :: Store where
  "opened_Store =
     \<lparr>path = ''sync.db'',
      db = Some (new_file\<lparr>db_root := [(defaultsBucket, Nested [])]\<rparr>)\<rparr>"

definition alice_Store :: Store where
  "alice_Store =
     \<lparr>path = ''sync.db'',
      db = Some (new_file\<lparr>db_root :=
             [(bytes_of ''alice'', Nested [(downloadItemsBucket, Nested []),
                                            (watchedTorrentsBucket, Nested [])]),
              (defaultsBucket, Nested [])]\<rparr>)\<rparr>"

text \<open>
  A store in use: a configuration, two records, and between them a value that is not the
  encoding of a record.
\<close>

definition damaged_Store :: Store where
  "damaged_Store =
     \<lparr>path = ''sync.db'',
      db = Some (new_file\<lparr>db_root :=
             [(bytes_of ''alice'',
               Nested [(bytes_of ''config'', Leaf [1, 116]),
                       (downloadItemsBucket,
                        Nested [(itob 1, Leaf [1, 0]), (itob 2, Leaf [255]), (itob 3, Leaf [3, 0])]),
                       (watchedTorrentsBucket, Nested [])]),
              (defaultsBucket, Nested [])]\<rparr>)\<rparr>"

text \<open>
  A small encoding of states without further fields: the low byte of the identifier and
  the flag. It gives back every state whose identifier is below 256.
\<close>

definition sample_gob :: "unit State gob" where
  "sample_gob =
     \<lparr>Encode = (\<lambda>st. Inr [ucast (FileID st), if IsHidden st then 1 else 0]),
      Decode = (\<lambda>b. case b of
                       [i, h] \<Rightarrow> Inr \<lparr>FileID = ucast i, IsHidden = (h \<noteq> 0), Transfer = ()\<rparr>
                     | _ \<Rightarrow> Inl (Failure ''unexpected EOF''))\<rparr>"

definition sample_State :: "int64 \<Rightarrow> bool \<Rightarrow> unit State" where
  "sample_State i h = \<lparr>FileID = i, IsHidden = h, Transfer = ()\<rparr>"

definition sample_host :: host where
  "sample_host = \<lparr>user_Current = Inr ''/home/alice'', filepath_Join = (\<lambda>a b. a @ ''/'' @ b)\<rparr>"

text \<open>A small encoding of configurations that keeps the token and the pause flag.\<close>

definition sample_Config :: "string \<Rightarrow> bool \<Rightarrow> Config" where
  "sample_Config t p =
     \<lparr>PollInterval = defaultPollInterval, DownloadTo = ''/home/alice/putio-sync'',
      DownloadFrom = defaultDownloadFrom, SegmentsPerFile = defaultSegmentsPerFile,
      MaxParallelFiles = defaultMaxParallelFiles, OAuth2Token = t,
      WatchTorrentsFolder = False, TorrentsFolder = [], IsPaused = p,
      DeleteRemoteFile = False\<rparr>"

definition sample_Config_gob :: "Config gob" where
  "sample_Config_gob =
     \<lparr>Encode = (\<lambda>c. Inr ((if IsPaused c then 1 else 0) # bytes_of (OAuth2Token c))),
      Decode = (\<lambda>b. case b of
                       [] \<Rightarrow> Inl (Failure ''unexpected EOF'')
                     | p # t \<Rightarrow> Inr (sample_Config (string_of t) (p \<noteq> 0)))\<rparr>"

section \<open>Facts about the engine\<close>

lemma map_of_upsert_same: "map_of (upsert k n b) k = Some n"
  by (induction b) auto

lemma map_of_upsert_other: "k' \<noteq> k \<Longrightarrow> map_of (upsert k n b) k' = map_of b k'"
  by (induction b) auto

lemma map_of_put_back_same: "map_of b k = Some n \<Longrightarrow> map_of (put_back b k c) k = Some (Nested c)"
  by (induction b) (auto split: if_splits)

lemma map_of_put_back_other: "k' \<noteq> k \<Longrightarrow> map_of (put_back b k c) k' = map_of b k'"
  by (induction b) auto

lemma put_back_same: "map_of b k = Some (Nested c) \<Longrightarrow> put_back b k c = b"
  by (induction b) (auto split: if_splits)

lemma Bucket_put_back: "bucket_Bucket b k = Some c \<Longrightarrow> bucket_Bucket (put_back b k c') k = Some c'"
  by (auto simp: bucket_Bucket_def map_of_put_back_same split: option.splits node.splits)

lemma Bucket_put_back_other: "k' \<noteq> k \<Longrightarrow> bucket_Bucket (put_back b k c') k' = bucket_Bucket b k'"
  by (simp add: bucket_Bucket_def map_of_put_back_other)

lemma Get_put_back_other: "k' \<noteq> k \<Longrightarrow> bucket_Get (put_back b k c') k' = bucket_Get b k'"
  by (simp add: bucket_Get_def map_of_put_back_other)

lemma Bucket_put_back_id: "bucket_Bucket b k = Some c \<Longrightarrow> put_back b k c = b"
  by (auto simp: bucket_Bucket_def put_back_same split: option.splits node.splits)

lemma Get_upsert_same: "bucket_Get (upsert k (Leaf v) b) k = Some v"
  by (simp add: bucket_Get_def map_of_upsert_same)

lemma Get_upsert_other: "k' \<noteq> k \<Longrightarrow> bucket_Get (upsert k n b) k' = bucket_Get b k'"
  by (simp add: bucket_Get_def map_of_upsert_other)

lemma Bucket_upsert_other: "k' \<noteq> k \<Longrightarrow> bucket_Bucket (upsert k n b) k' = bucket_Bucket b k'"
  by (simp add: bucket_Bucket_def map_of_upsert_other)

lemma Bucket_upsert_same: "bucket_Bucket (upsert k (Nested c) b) k = Some c"
  by (simp add: bucket_Bucket_def map_of_upsert_same)

lemma Put_ok:
  "key \<noteq> [] \<Longrightarrow> length key \<le> MaxKeySize \<Longrightarrow> length val \<le> MaxValueSize \<Longrightarrow> bucket_Bucket b key = None
   \<Longrightarrow> bucket_Put b key val = Inr (upsert key (Leaf val) b)"
  by (auto simp: bucket_Put_def bucket_Bucket_def split: option.splits node.splits)

subsection \<open>The fixed names as bytes\<close>

lemma downloadItemsBucket_bytes:
  "downloadItemsBucket = [100, 111, 119, 110, 108, 111, 97, 100, 45, 105, 116, 101, 109, 115]"
  by (simp add: downloadItemsBucket_def bytes_of_def)

lemma watchedTorrentsBucket_bytes:
  "watchedTorrentsBucket = [119, 97, 116, 99, 104, 101, 100, 45, 116, 111, 114, 114, 101, 110, 116, 115]"
  by (simp add: watchedTorrentsBucket_def bytes_of_def)

lemma defaultsBucket_bytes: "defaultsBucket = [100, 101, 102, 97, 117, 108, 116, 115]"
  by (simp add: defaultsBucket_def bytes_of_def)

lemma config_bytes: "bytes_of ''config'' = [99, 111, 110, 102, 105, 103]"
  by (simp add: bytes_of_def)

lemma current_user_bytes:
  "bytes_of ''current-user'' = [99, 117, 114, 114, 101, 110, 116, 45, 117, 115, 101, 114]"
  by (simp add: bytes_of_def)

lemma names_distinct:
  "downloadItemsBucket \<noteq> watchedTorrentsBucket" "watchedTorrentsBucket \<noteq> downloadItemsBucket"
  "bytes_of ''config'' \<noteq> downloadItemsBucket" "bytes_of ''config'' \<noteq> watchedTorrentsBucket"
  "downloadItemsBucket \<noteq> bytes_of ''config''" "watchedTorrentsBucket \<noteq> bytes_of ''config''"
  "downloadItemsBucket \<noteq> []" "watchedTorrentsBucket \<noteq> []" "bytes_of ''config'' \<noteq> []"
  by (simp_all add: downloadItemsBucket_bytes watchedTorrentsBucket_bytes config_bytes)

lemma bytes_of_Nil_iff: "bytes_of u = [] \<longleftrightarrow> u = []"
  by (simp add: bytes_of_def)

section \<open>The key encoding\<close>

lemma bytes_less_unat: "bytes_less xs ys = nat_lex (map unat xs) (map unat ys)"
  by (induction xs ys rule: bytes_less.induct) (auto simp: word_less_nat_alt word_unat_eq_iff)

lemma split_top: "(x::nat) mod 256 ^ Suc n = (x div 256 ^ n mod 256) * 256 ^ n + x mod 256 ^ n"
proof -
  have "x mod (256 ^ n * 256) = 256 ^ n * (x div 256 ^ n mod 256) + x mod 256 ^ n"
    by (rule mod_mult2_eq)
  then show ?thesis by (simp add: mult.commute)
qed

lemma lex_step:
  fixes a b p r s :: nat
  assumes "r < p" "s < p"
  shows "(a * p + r < b * p + s) = (a < b \<or> (a = b \<and> r < s))"
proof (cases a b rule: linorder_cases)
  case less
  then have "Suc a * p \<le> b * p" by (intro mult_le_mono1) simp
  with assms less show ?thesis by simp
next
  case equal
  then show ?thesis by simp
next
  case greater
  then have "Suc b * p \<le> a * p" by (intro mult_le_mono1) simp
  with assms greater show ?thesis by simp
qed

lemma nat_lex_be_digits: "nat_lex (be_digits n x) (be_digits n y) = (x mod 256 ^ n < y mod 256 ^ n)"
proof (induction n)
  case 0
  show ?case by simp
next
  case (Suc n)
  have "x mod 256 ^ n < 256 ^ n" "y mod 256 ^ n < 256 ^ n" by simp_all
  from lex_step [OF this] Suc show ?case
    by (simp only: be_digits.simps nat_lex.simps split_top)
qed

lemma unat_byte: "unat (ucast (drop_bit k (v::64 word)) :: 8 word) = unat v div 2 ^ k mod 256"
  unfolding unsigned_ucast_eq unat_drop_bit_eq by (simp add: take_bit_eq_mod drop_bit_eq_div)

lemma be_digits_8:
  "be_digits 8 x =
     [x div 2 ^ 56 mod 256, x div 2 ^ 48 mod 256, x div 2 ^ 40 mod 256, x div 2 ^ 32 mod 256,
      x div 2 ^ 24 mod 256, x div 2 ^ 16 mod 256, x div 2 ^ 8 mod 256, x div 2 ^ 0 mod 256]"
proof -
  have p: "(256::nat) ^ k = 2 ^ (8 * k)" for k
    by (simp add: power_mult)
  have e: "(8::nat) = Suc (Suc (Suc (Suc (Suc (Suc (Suc (Suc 0)))))))" by simp
  show ?thesis
    unfolding e be_digits.simps p by simp
qed

lemma itob_digits: "map unat (itob v) = be_digits 8 (unat v)"
proof -
  have u: "ucast v = (ucast (drop_bit 0 v) :: 8 word)" by simp
  show ?thesis unfolding be_digits_8 itob_def by (subst u) (simp only: list.map unat_byte)
qed

text \<open>The order of the keys is the unsigned order of the identifiers.\<close>

lemma itob_less: "bytes_less (itob a) (itob b) = (a < b)"
proof -
  have "unat a < 2 ^ 64" "unat b < 2 ^ 64"
    using unsigned_less [of a, where 'a = nat] unsigned_less [of b, where 'a = nat] by simp_all
  moreover have "(256::nat) ^ 8 = 2 ^ 64" by simp
  ultimately show ?thesis
    by (simp only: bytes_less_unat itob_digits nat_lex_be_digits word_less_nat_alt mod_less)
qed

lemma itob_inject: "itob a = itob b \<longleftrightarrow> a = b"
proof
  assume e: "itob a = itob b"
  have "\<not> a < b" "\<not> b < a"
    using itob_less [of a b] itob_less [of b a] itob_less [of a a] by (simp_all add: e)
  then show "a = b" by simp
qed simp

lemma itob_key_ok: "itob v \<noteq> []" "length (itob v) \<le> MaxKeySize"
  by (simp_all add: itob_def MaxKeySize_def)

subsection \<open>Signed and unsigned order\<close>

lemma sint64: "sint (w::64 word) = uint w - 2 ^ 64 * of_bool (bit w 63)"
proof -
  have "sint w = signed_take_bit 63 (uint w)" by (simp add: sint_uint)
  also have "\<dots> = take_bit 64 (uint w) - 2 ^ 64 * of_bool (bit (uint w) 63)"
    using signed_take_bit_eq_take_bit_minus [of 63 "uint w"] by simp
  also have "take_bit 64 (uint w) = uint w"
    by (simp add: take_bit_int_eq_self unsigned_less [of w, where 'a = int, simplified])
  also have "bit (uint w) 63 = bit w 63" by (simp add: bit_unsigned_iff)
  finally show ?thesis .
qed

lemma nonneg_iff: "(0 \<le>s (w::64 word)) = (\<not> bit w 63)"
proof -
  have "uint w < 2 ^ 64" using unsigned_less [of w, where 'a = int] by simp
  moreover have "0 \<le> uint w" by simp
  ultimately show ?thesis unfolding word_sle_eq sint64 by (cases "bit w 63") simp_all
qed

lemma same_sign_less: "(0 \<le>s a) = (0 \<le>s b) \<Longrightarrow> (a <s b) = (a < (b::64 word))"
  unfolding nonneg_iff word_sless_alt sint64 word_less_def by simp

lemma negative_above: "\<not> 0 \<le>s a \<Longrightarrow> 0 \<le>s b \<Longrightarrow> a <s b \<and> b < (a::64 word)"
proof -
  assume a: "\<not> 0 \<le>s a" and b: "0 \<le>s b"
  from a have ba: "bit a 63" by (simp add: nonneg_iff)
  from b have bb: "\<not> bit b 63" by (simp add: nonneg_iff)
  have "- (2 ^ 63) \<le> sint a" using sint_ge [of a] by simp
  with ba have ua: "2 ^ 63 \<le> uint a" by (simp add: sint64)
  have "sint b < 2 ^ 63" using sint_lt [of b] by simp
  with bb have ub: "uint b < 2 ^ 63" by (simp add: sint64)
  have "sint a < 0" using a by (simp add: word_sle_eq)
  moreover have "0 \<le> sint b" using b by (simp add: word_sle_eq)
  ultimately have "a <s b" by (simp add: word_sless_alt)
  moreover from ua ub have "b < a" by (simp add: word_less_def)
  ultimately show ?thesis by simp
qed

section \<open>Facts about the store\<close>

subsection \<open>Transactions\<close>

lemma namespaceD:
  "namespace s u = Some ub \<Longrightarrow> \<exists>d. db s = Some d \<and> db_opened d \<and> bucket_Bucket (db_root d) (bytes_of u) = Some ub"
  by (auto simp: namespace_def split: option.splits if_splits)

lemma download_itemsD:
  "download_items s u = Some dl \<Longrightarrow>
     \<exists>d ub. db s = Some d \<and> db_opened d \<and> bucket_Bucket (db_root d) (bytes_of u) = Some ub
       \<and> bucket_Bucket ub downloadItemsBucket = Some dl"
  by (auto simp: download_items_def split: option.splits dest: namespaceD)

lemma provisionedD:
  "provisioned s u \<Longrightarrow> \<exists>d ub dl wt. db s = Some d \<and> db_opened d
     \<and> bucket_Bucket (db_root d) (bytes_of u) = Some ub
     \<and> bucket_Bucket ub downloadItemsBucket = Some dl \<and> bucket_Bucket ub watchedTorrentsBucket = Some wt"
  by (auto simp: provisioned_def split: option.splits dest: namespaceD)

lemma Store_db_Update_commit:
  "db s = Some d \<Longrightarrow> db_opened d \<Longrightarrow> commit_fault d = None \<Longrightarrow> fn (db_root d) = Returns (Inr tx)
   \<Longrightarrow> Store_db_Update s fn = Returns (s\<lparr>db := Some (d\<lparr>db_root := tx\<rparr>)\<rparr>, None)"
  by (simp add: Store_db_Update_def db_Update_def)

lemma Store_db_Update_cases:
  assumes "Store_db_Update s fn = Returns (s', err)"
  shows "s' = s \<or> (\<exists>d tx. db s = Some d \<and> db_opened d \<and> fn (db_root d) = Returns (Inr tx)
            \<and> s' = s\<lparr>db := Some (d\<lparr>db_root := tx\<rparr>)\<rparr>)"
  using assms
  by (auto simp: Store_db_Update_def db_Update_def split: option.splits if_splits outcome.splits sum.splits)

lemma Store_db_View_run:
  "db s = Some d \<Longrightarrow> db_opened d \<Longrightarrow> Store_db_View s fn = (case fn (db_root d) of Panics \<Rightarrow> Panics | Returns r \<Rightarrow> Returns (Inr r))"
  by (simp add: Store_db_View_def db_View_def)

subsection \<open>Saving, fetching and listing states\<close>

lemma SaveState_tx_ok:
  assumes "bucket_Bucket tx (bytes_of u) = Some ub" "bucket_Bucket ub downloadItemsBucket = Some dl"
    and "Encode g st = Inr v" "length v \<le> MaxValueSize" "bucket_Bucket dl (itob (FileID st)) = None"
  shows "SaveState_tx g st u tx =
    Returns (Inr (put_back tx (bytes_of u) (put_back ub downloadItemsBucket (upsert (itob (FileID st)) (Leaf v) dl))))"
  using assms by (simp add: SaveState_tx_def Put_ok itob_key_ok)

lemma Store_SaveState_ok:
  assumes "commits s" "download_items s u = Some dl"
    and "Encode g st = Inr v" "length v \<le> MaxValueSize" "bucket_Bucket dl (itob (FileID st)) = None"
  shows "\<exists>s'. Store_SaveState g st u s = Returns (s', None) \<and> commits s' \<and> path s' = path s
      \<and> download_items s' u = Some (upsert (itob (FileID st)) (Leaf v) dl)"
proof -
  from download_itemsD [OF assms(2)] obtain d ub where
    d: "db s = Some d" "db_opened d" "bucket_Bucket (db_root d) (bytes_of u) = Some ub"
       "bucket_Bucket ub downloadItemsBucket = Some dl" by blast
  from assms(1) d(1) have c: "commit_fault d = None" by (simp add: commits_def)
  let ?dl = "upsert (itob (FileID st)) (Leaf v) dl"
  let ?ub = "put_back ub downloadItemsBucket ?dl"
  let ?tx = "put_back (db_root d) (bytes_of u) ?ub"
  let ?s = "s\<lparr>db := Some (d\<lparr>db_root := ?tx\<rparr>)\<rparr>"
  have "Store_SaveState g st u s = Returns (?s, None)"
    unfolding Store_SaveState_def
    by (rule Store_db_Update_commit [OF d(1,2) c]) (rule SaveState_tx_ok [OF d(3,4) assms(3,4,5)])
  moreover have "commits ?s" by (simp add: commits_def c)
  moreover have "download_items ?s u = Some ?dl"
    by (simp add: download_items_def namespace_def d(2) Bucket_put_back [OF d(3)] Bucket_put_back [OF d(4)])
  ultimately show ?thesis by auto
qed

lemma State_tx_eq:
  assumes "bucket_Bucket tx (bytes_of u) = Some ub" "bucket_Bucket ub downloadItemsBucket = Some dl"
  shows "State_tx g fid u tx =
    Returns (case bucket_Get dl (itob fid) of None \<Rightarrow> Inl ErrStateNotFound | Some v \<Rightarrow> Decode g v)"
  using assms by (simp add: State_tx_def split: option.splits)

lemma Store_State_eq:
  assumes "download_items s u = Some dl"
  shows "Store_State g fid u s =
    Returns (case bucket_Get dl (itob fid) of None \<Rightarrow> Inl ErrStateNotFound | Some v \<Rightarrow> Decode g v)"
proof -
  from download_itemsD [OF assms] obtain d ub where
    d: "db s = Some d" "db_opened d" "bucket_Bucket (db_root d) (bytes_of u) = Some ub"
       "bucket_Bucket ub downloadItemsBucket = Some dl" by blast
  show ?thesis
    by (simp add: Store_State_def Store_db_View_run [OF d(1,2)] State_tx_eq [OF d(3,4)])
qed

lemma Store_States_eq:
  assumes "download_items s u = Some dl" "u \<noteq> []"
  shows "Store_States g u s = Returns (States_loop g (cursor_entries dl) [])"
proof -
  from download_itemsD [OF assms(1)] obtain d ub where
    d: "db s = Some d" "db_opened d" "bucket_Bucket (db_root d) (bytes_of u) = Some ub"
       "bucket_Bucket ub downloadItemsBucket = Some dl" by blast
  show ?thesis using assms(2)
    by (simp add: Store_States_def Store_db_View_run [OF d(1,2)] States_tx_def d(3,4))
qed

lemma States_loop_all:
  "list_all (decodes g) es \<Longrightarrow> States_loop g es acc = (acc @ visible g es, None)"
  by (induction es arbitrary: acc) (auto split: sum.splits)

lemma States_loop_fail:
  "list_all (decodes g) pre \<Longrightarrow> Decode g v = Inl err
   \<Longrightarrow> States_loop g (pre @ (k, v) # post) acc = (acc @ visible g pre, Some err)"
  by (induction pre arbitrary: acc) (auto split: sum.splits)

text \<open>
  When every value of the \<open>download-items\<close> bucket decodes, the listing is the decoded
  records that are not hidden, in the order of the cursor.
\<close>

lemma States_lists_visible:
  assumes "download_items s u = Some dl" "u \<noteq> []" "list_all (decodes g) (cursor_entries dl)"
  shows "Store_States g u s = Returns (visible g (cursor_entries dl), None)"
  by (simp add: Store_States_eq [OF assms(1,2)] States_loop_all [OF assms(3)])

text \<open>Without the bucket of the user, \<open>SaveState\<close> panics, whatever the state.\<close>

lemma SaveState_no_namespace:
  assumes "db s = Some d" "db_opened d" "bucket_Bucket (db_root d) (bytes_of u) = None"
  shows "Store_SaveState g st u s = Panics"
  using assms by (simp add: Store_SaveState_def Store_db_Update_def db_Update_def SaveState_tx_def)

subsection \<open>Saving and fetching the configuration\<close>

lemma SaveConfig_tx_ok:
  assumes "bucket_Bucket tx (bytes_of u) = Some ub" "Encode g c = Inr v" "length v \<le> MaxValueSize"
    and "bucket_Bucket ub (bytes_of ''config'') = None"
  shows "SaveConfig_tx g c u tx = Returns (Inr (put_back tx (bytes_of u) (upsert (bytes_of ''config'') (Leaf v) ub)))"
  using assms by (simp add: SaveConfig_tx_def Put_ok names_distinct config_bytes MaxKeySize_def)

lemma Store_SaveConfig_ok:
  assumes "commits s" "namespace s u = Some ub" "Encode g c = Inr v" "length v \<le> MaxValueSize"
    and "bucket_Bucket ub (bytes_of ''config'') = None"
  shows "\<exists>s'. Store_SaveConfig g c u s = Returns (s', None) \<and> commits s' \<and> path s' = path s
      \<and> namespace s' u = Some (upsert (bytes_of ''config'') (Leaf v) ub)"
proof -
  from namespaceD [OF assms(2)] obtain d where
    d: "db s = Some d" "db_opened d" "bucket_Bucket (db_root d) (bytes_of u) = Some ub" by blast
  from assms(1) d(1) have c: "commit_fault d = None" by (simp add: commits_def)
  let ?ub = "upsert (bytes_of ''config'') (Leaf v) ub"
  let ?s = "s\<lparr>db := Some (d\<lparr>db_root := put_back (db_root d) (bytes_of u) ?ub\<rparr>)\<rparr>"
  have "Store_SaveConfig g c u s = Returns (?s, None)"
    unfolding Store_SaveConfig_def
    by (rule Store_db_Update_commit [OF d(1,2) c]) (rule SaveConfig_tx_ok [OF d(3) assms(3,4,5)])
  moreover have "commits ?s" by (simp add: commits_def c)
  moreover have "namespace ?s u = Some ?ub"
    by (simp add: namespace_def d(2) Bucket_put_back [OF d(3)])
  ultimately show ?thesis by auto
qed

lemma Store_Config_eq:
  assumes "namespace s u = Some ub" "u \<noteq> []"
  shows "Store_Config h g u s =
    (case bucket_Get ub (bytes_of ''config'') of
       None \<Rightarrow> Returns (Store_DefaultConfig h)
     | Some v \<Rightarrow> (case Decode g v of
                    Inl err \<Rightarrow> if err = ErrConfigNotFound then Returns (Store_DefaultConfig h) else Returns (Inl err)
                  | Inr cfg \<Rightarrow> Returns (Inr cfg)))"
proof -
  from namespaceD [OF assms(1)] obtain d where
    d: "db s = Some d" "db_opened d" "bucket_Bucket (db_root d) (bytes_of u) = Some ub" by blast
  show ?thesis using assms(2)
    by (simp add: Store_Config_def Store_db_View_run [OF d(1,2)] Config_tx_def d(3)
        split: option.splits sum.splits)
qed

text \<open>
  The default configuration is returned for the empty user and for a user whose bucket
  holds no \<open>config\<close> key; without the bucket of the user, \<open>Config\<close> panics.
\<close>

lemma Config_empty_user: "Store_Config h g [] s = Returns (Store_DefaultConfig h)"
  by (simp add: Store_Config_def)

lemma Config_without_record:
  assumes "namespace s u = Some ub" "u \<noteq> []" "bucket_Get ub (bytes_of ''config'') = None"
  shows "Store_Config h g u s = Returns (Store_DefaultConfig h)"
  by (simp add: Store_Config_eq [OF assms(1,2)] assms(3))

lemma Config_no_namespace:
  assumes "db s = Some d" "db_opened d" "bucket_Bucket (db_root d) (bytes_of u) = None" "u \<noteq> []"
  shows "Store_Config h g u s = Panics"
  using assms by (simp add: Store_Config_def Store_db_View_run [OF assms(1,2)] Config_tx_def)

subsection \<open>Opening\<close>

lemma Open_new_file: "Store_Open (\<lambda>p. Inr new_file) (NewStore ''sync.db'') = Returns (opened_Store, None)"
  by (simp add: Store_Open_def NewStore_def new_file_def opened_Store_def db_Update_def
      bucket_CreateBucketIfNotExists_def defaultsBucket_bytes)

text \<open>On the store as \<open>Open\<close> leaves a new file, the current user is the empty string.\<close>

lemma CurrentUser_first_run: "Store_CurrentUser opened_Store = Returns (Inr [])"
  by (simp add: Store_CurrentUser_def Store_db_View_def db_View_def CurrentUser_tx_def
      opened_Store_def new_file_def bucket_Bucket_def bucket_Get_def)

text \<open>
  When the provisioning of \<open>Open\<close> fails at commit, the handle is closed and what
  \<open>Open\<close> returns is the result of \<open>Close\<close>.
\<close>

lemma Open_provisioning_fails:
  assumes "bolt_Open (path s) = Inr d" "db_opened d" "commit_fault d = Some err"
  shows "Store_Open bolt_Open s = Returns (s\<lparr>db := Some (d\<lparr>db_opened := False\<rparr>)\<rparr>, close_fault d)"
  using assms
  by (auto simp: Store_Open_def db_Update_def db_Close_def split: sum.splits)

subsection \<open>Provisioning\<close>

lemma CreateBucketIfNotExists_exists:
  "bucket_Bucket b name = Some c \<Longrightarrow> name \<noteq> [] \<Longrightarrow> bucket_CreateBucketIfNotExists b name = Inr (b, c)"
  by (auto simp: bucket_CreateBucketIfNotExists_def bucket_Bucket_def split: option.splits node.splits)

lemma CreateBucketIfNotExists_Inr:
  "bucket_CreateBucketIfNotExists b name = Inr (b', c) \<Longrightarrow>
     name \<noteq> [] \<and> bucket_Bucket b' name = Some c \<and> (\<forall>k. k \<noteq> name \<longrightarrow> map_of b' k = map_of b k)"
  by (auto simp: bucket_CreateBucketIfNotExists_def bucket_Bucket_def map_of_upsert_same map_of_upsert_other
      split: option.splits node.splits if_splits)

lemma CreateBuckets_tx_provisioned:
  assumes "bucket_Bucket tx (bytes_of u) = Some ub" "u \<noteq> []"
    and "bucket_Bucket ub downloadItemsBucket = Some dl" "bucket_Bucket ub watchedTorrentsBucket = Some wt"
  shows "CreateBuckets_tx u tx = Returns (Inr tx)"
  using assms
  by (simp add: CreateBuckets_tx_def CreateBucketIfNotExists_exists bytes_of_Nil_iff names_distinct
      Bucket_put_back_id)

lemma CreateBuckets_tx_Inr:
  assumes "CreateBuckets_tx u tx = Returns (Inr tx')"
  shows "u \<noteq> [] \<and> (\<exists>ub dl wt. bucket_Bucket tx' (bytes_of u) = Some ub
      \<and> bucket_Bucket ub downloadItemsBucket = Some dl \<and> bucket_Bucket ub watchedTorrentsBucket = Some wt)"
proof -
  from assms obtain tx1 ub0 ub1 c1 ub2 c2 where
    a: "bucket_CreateBucketIfNotExists tx (bytes_of u) = Inr (tx1, ub0)"
    and b: "bucket_CreateBucketIfNotExists ub0 downloadItemsBucket = Inr (ub1, c1)"
    and c: "bucket_CreateBucketIfNotExists ub1 watchedTorrentsBucket = Inr (ub2, c2)"
    and t: "tx' = put_back tx1 (bytes_of u) ub2"
    by (auto simp: CreateBuckets_tx_def split: sum.splits prod.splits)
  note A = CreateBucketIfNotExists_Inr [OF a] and B = CreateBucketIfNotExists_Inr [OF b]
    and C = CreateBucketIfNotExists_Inr [OF c]
  from A have u: "u \<noteq> []" by (simp add: bytes_of_Nil_iff)
  from A have "bucket_Bucket tx' (bytes_of u) = Some ub2" unfolding t by (intro Bucket_put_back) simp
  moreover from B C have "bucket_Bucket ub2 downloadItemsBucket = Some c1"
    by (simp add: bucket_Bucket_def names_distinct)
  moreover from C have "bucket_Bucket ub2 watchedTorrentsBucket = Some c2" by simp
  ultimately show ?thesis using u by blast
qed

lemma CreateBuckets_unchanged:
  assumes "provisioned s u" "u \<noteq> []"
  shows "Store_CreateBuckets u s = Returns (s, case db s of None \<Rightarrow> None | Some d \<Rightarrow> commit_fault d)"
proof -
  from provisionedD [OF assms(1)] obtain d ub dl wt where
    d: "db s = Some d" "db_opened d" "bucket_Bucket (db_root d) (bytes_of u) = Some ub"
    "bucket_Bucket ub downloadItemsBucket = Some dl" "bucket_Bucket ub watchedTorrentsBucket = Some wt"
    by blast
  have e: "s\<lparr>db := Some d\<rparr> = s" using d(1) by simp
  show ?thesis
    by (simp add: Store_CreateBuckets_def Store_db_Update_def db_Update_def d(1,2)
        CreateBuckets_tx_provisioned [OF d(3) assms(2) d(4,5)] e split: option.splits)
qed

text \<open>
  A call that returns nil provisions the user, so the next call changes nothing; saving a
  state or a configuration, for any user, keeps a provisioned user provisioned.
\<close>

lemma CreateBuckets_provisions:
  assumes "Store_CreateBuckets u s = Returns (s1, None)"
  shows "provisioned s1 u \<and> u \<noteq> [] \<and> commits s1"
proof -
  from assms obtain d tx' where d: "db s = Some d" "db_opened d" "commit_fault d = None"
    "CreateBuckets_tx u (db_root d) = Returns (Inr tx')" "s1 = s\<lparr>db := Some (d\<lparr>db_root := tx'\<rparr>)\<rparr>"
    by (auto simp: Store_CreateBuckets_def Store_db_Update_def db_Update_def
        split: option.splits if_splits outcome.splits sum.splits)
  from CreateBuckets_tx_Inr [OF d(4)] d(2,3) show ?thesis
    by (auto simp: provisioned_def namespace_def commits_def d(5))
qed

lemma CreateBuckets_twice:
  assumes "Store_CreateBuckets u s = Returns (s1, None)"
  shows "Store_CreateBuckets u s1 = Returns (s1, None)"
proof -
  from CreateBuckets_provisions [OF assms] have p: "provisioned s1 u" "u \<noteq> []" "commits s1" by simp_all
  from p(3) CreateBuckets_unchanged [OF p(1,2)] show ?thesis
    by (auto simp: commits_def split: option.splits)
qed

lemma provisioned_SaveState:
  assumes "provisioned s u" "Store_SaveState g st u' s = Returns (s', err)"
  shows "provisioned s' u"
proof -
  from Store_db_Update_cases [OF assms(2) [unfolded Store_SaveState_def]]
  consider "s' = s" | d tx where "db s = Some d" "db_opened d"
      "SaveState_tx g st u' (db_root d) = Returns (Inr tx)" "s' = s\<lparr>db := Some (d\<lparr>db_root := tx\<rparr>)\<rparr>"
    by blast
  then show ?thesis
  proof cases
    case 1
    with assms(1) show ?thesis by simp
  next
    case 2
    from 2(3) obtain ub' dl' dl'' where t: "bucket_Bucket (db_root d) (bytes_of u') = Some ub'"
      "bucket_Bucket ub' downloadItemsBucket = Some dl'"
      "tx = put_back (db_root d) (bytes_of u') (put_back ub' downloadItemsBucket dl'')"
      by (auto simp: SaveState_tx_def Let_def split: option.splits sum.splits)
    from provisionedD [OF assms(1)] 2(1) obtain ub dl wt where
      p: "bucket_Bucket (db_root d) (bytes_of u) = Some ub"
      "bucket_Bucket ub downloadItemsBucket = Some dl" "bucket_Bucket ub watchedTorrentsBucket = Some wt"
      by auto
    show ?thesis
    proof (cases "bytes_of u = bytes_of u'")
      case True
      with p t have "ub' = ub" by simp
      with True p t show ?thesis
        by (simp add: provisioned_def namespace_def 2 Bucket_put_back Bucket_put_back_other names_distinct)
    next
      case False
      with p show ?thesis
        by (simp add: provisioned_def namespace_def 2 t(3) Bucket_put_back_other)
    qed
  qed
qed

lemma provisioned_SaveConfig:
  assumes "provisioned s u" "Store_SaveConfig g c u' s = Returns (s', err)"
  shows "provisioned s' u"
proof -
  from Store_db_Update_cases [OF assms(2) [unfolded Store_SaveConfig_def]]
  consider "s' = s" | d tx where "db s = Some d" "db_opened d"
      "SaveConfig_tx g c u' (db_root d) = Returns (Inr tx)" "s' = s\<lparr>db := Some (d\<lparr>db_root := tx\<rparr>)\<rparr>"
    by blast
  then show ?thesis
  proof cases
    case 1
    with assms(1) show ?thesis by simp
  next
    case 2
    from 2(3) obtain ub' v where t: "bucket_Bucket (db_root d) (bytes_of u') = Some ub'"
      "tx = put_back (db_root d) (bytes_of u') (upsert (bytes_of ''config'') (Leaf v) ub')"
      by (auto simp: SaveConfig_tx_def Let_def bucket_Put_def split: option.splits sum.splits if_splits node.splits)
    from provisionedD [OF assms(1)] 2(1) obtain ub dl wt where
      p: "bucket_Bucket (db_root d) (bytes_of u) = Some ub"
      "bucket_Bucket ub downloadItemsBucket = Some dl" "bucket_Bucket ub watchedTorrentsBucket = Some wt"
      by auto
    show ?thesis
    proof (cases "bytes_of u = bytes_of u'")
      case True
      with p t have "ub' = ub" by simp
      with True p t show ?thesis
        by (simp add: provisioned_def namespace_def 2 Bucket_put_back Bucket_upsert_other names_distinct)
    next
      case False
      with p show ?thesis
        by (simp add: provisioned_def namespace_def 2 t(2) Bucket_put_back_other)
    qed
  qed
qed

section \<open>The bucket of the saved records\<close>

text \<open>
  Saving valid records into an empty \<open>download-items\<close> bucket keeps the bucket equal to
  the image of the list \<open>saved\<close> builds: the order of the keys is the order of \<open>ins\<close>.
\<close>

lemma valid_forD:
  "valid_for g x \<Longrightarrow> Encode g x = Inr (encoded g x) \<and> length (encoded g x) \<le> MaxValueSize
     \<and> Decode g (encoded g x) = Inr x"
  by (auto simp: valid_for_def encoded_def split: sum.splits)

lemma upsert_stored:
  "upsert (itob (FileID st)) (Leaf (encoded g st)) (map (stored g) l) = map (stored g) (ins st l)"
  by (induction l) (auto simp: stored_def itob_less itob_inject)

lemma Bucket_stored: "bucket_Bucket (map (stored g) l) k = None"
proof -
  have "map_of (map (stored g) l) k \<noteq> Some (Nested c)" for c
    by (induction l) (auto simp: stored_def)
  then show ?thesis by (auto simp: bucket_Bucket_def split: option.splits node.splits)
qed

lemma cursor_entries_stored:
  "cursor_entries (map (stored g) l) = map (\<lambda>st. (itob (FileID st), encoded g st)) l"
  by (simp add: cursor_entries_def stored_def)

lemma decodes_stored:
  "\<forall>st\<in>set l. valid_for g st \<Longrightarrow> list_all (decodes g) (map (\<lambda>st. (itob (FileID st), encoded g st)) l)"
  by (induction l) (auto dest: valid_forD)

lemma visible_stored:
  "\<forall>st\<in>set l. valid_for g st \<Longrightarrow>
     visible g (map (\<lambda>st. (itob (FileID st), encoded g st)) l) = filter (\<lambda>st. \<not> IsHidden st) l"
  by (induction l) (auto dest: valid_forD)

lemma set_ins: "set (ins st l) \<subseteq> insert st (set l)"
  by (induction l) auto

lemma FileID_ins: "FileID ` set (ins st l) = insert (FileID st) (FileID ` set l)"
  by (induction l) auto

lemma ins_notin: "FileID st \<notin> FileID ` set l \<Longrightarrow> set (ins st l) = insert st (set l)"
  by (induction l) auto

lemma sorted_ins:
  "sorted_wrt (\<lambda>a b. FileID a < FileID b) l \<Longrightarrow> sorted_wrt (\<lambda>a b. FileID a < FileID b) (ins st l)"
proof (induction l)
  case Nil
  show ?case by simp
next
  case (Cons x r)
  have "\<forall>y\<in>set (ins st r). FileID x < FileID y" if "FileID x < FileID st"
    using that Cons.prems set_ins [of st r] by auto
  with Cons show ?case by (auto simp: not_less)
qed

lemma set_foldl_ins: "set (foldl (\<lambda>l st. ins st l) l xs) \<subseteq> set l \<union> set xs"
proof (induction xs arbitrary: l)
  case Nil show ?case by simp
next
  case (Cons x xs)
  from Cons [of "ins x l"] set_ins [of x l] show ?case by auto
qed

lemma sorted_foldl_ins:
  "sorted_wrt (\<lambda>a b. FileID a < FileID b) l \<Longrightarrow> sorted_wrt (\<lambda>a b. FileID a < FileID b) (foldl (\<lambda>l st. ins st l) l xs)"
  by (induction xs arbitrary: l) (auto intro: sorted_ins)

lemma FileID_foldl_ins: "FileID ` set (foldl (\<lambda>l st. ins st l) l xs) = FileID ` set l \<union> FileID ` set xs"
proof (induction xs arbitrary: l)
  case Nil show ?case by simp
next
  case (Cons x xs)
  show ?case unfolding foldl_Cons Cons [of "ins x l"] FileID_ins by auto
qed

lemma set_saved: "set (saved xs) \<subseteq> set xs"
  using set_foldl_ins [of "[]" xs] by (simp add: saved_def)

lemma sorted_saved: "sorted_wrt (\<lambda>a b. FileID a < FileID b) (saved xs)"
  unfolding saved_def by (rule sorted_foldl_ins) simp

lemma FileID_saved: "FileID ` set (saved xs) = FileID ` set xs"
  using FileID_foldl_ins [of "[]" xs] by (simp add: saved_def)

lemma saved_distinct_set:
  "distinct (map FileID xs) \<Longrightarrow> set (saved xs) = set xs"
proof -
  have "distinct (map FileID xs) \<Longrightarrow> FileID ` set l \<inter> FileID ` set xs = {}
      \<Longrightarrow> set (foldl (\<lambda>l st. ins st l) l xs) = set l \<union> set xs" for l :: "'a State list"
  proof (induction xs arbitrary: l)
    case Nil
    show ?case by simp
  next
    case (Cons x xs)
    from Cons.prems have n: "FileID x \<notin> FileID ` set l" by auto
    have "FileID ` set (ins x l) \<inter> FileID ` set xs = {}"
      using Cons.prems by (auto simp: FileID_ins)
    with Cons.IH [of "ins x l"] Cons.prems(1) show ?case by (simp add: ins_notin [OF n])
  qed
  from this [of "[]"] show "distinct (map FileID xs) \<Longrightarrow> set (saved xs) = set xs"
    by (simp add: saved_def)
qed

lemma Get_stored:
  "sorted_wrt (\<lambda>a b. FileID a < FileID b) l \<Longrightarrow> st \<in> set l
   \<Longrightarrow> bucket_Get (map (stored g) l) (itob (FileID st)) = Some (encoded g st)"
  by (induction l) (auto simp: bucket_Get_def stored_def itob_inject)

lemma Get_stored_None:
  "fid \<notin> FileID ` set l \<Longrightarrow> bucket_Get (map (stored g) l) (itob fid) = None"
  by (induction l) (auto simp: bucket_Get_def stored_def itob_inject)

lemma sorted_ids:
  assumes "sorted_wrt (\<lambda>a b. FileID a < FileID b) l"
  shows "sorted_wrt (<) (map FileID (filter P l))"
proof -
  from assms have "sorted_wrt (\<lambda>a b. FileID a < FileID b) (filter P l)" by (rule sorted_wrt_filter)
  then show ?thesis by (simp add: sorted_wrt_map)
qed

lemma sorted_ids_signed:
  assumes "sorted_wrt (\<lambda>a b. FileID a < FileID b) l" "\<forall>st\<in>set l. 0 \<le>s FileID st"
  shows "sorted_wrt (<s) (map FileID (filter P l))"
proof -
  from assms(1) have "sorted_wrt (\<lambda>a b. FileID a < FileID b) (filter P l)" by (rule sorted_wrt_filter)
  then have "sorted_wrt (\<lambda>a b. FileID a <s FileID b) (filter P l)"
    by (rule sorted_wrt_mono_rel [rotated]) (use assms(2) in \<open>simp add: same_sign_less\<close>)
  then show ?thesis by (simp add: sorted_wrt_map)
qed

lemma SaveState_all_stored:
  assumes "commits s" "download_items s u = Some (map (stored g) l)" "\<forall>st\<in>set xs. valid_for g st"
  shows "\<exists>s'. SaveState_all g xs u s = Some s' \<and> commits s' \<and> path s' = path s
      \<and> download_items s' u = Some (map (stored g) (foldl (\<lambda>l st. ins st l) l xs))"
  using assms
proof (induction xs arbitrary: s l)
  case Nil
  then show ?case by simp
next
  case (Cons x xs)
  from Cons.prems(3) have vx: "valid_for g x" and vxs: "\<forall>st\<in>set xs. valid_for g st" by simp_all
  note e = valid_forD [OF vx]
  from Store_SaveState_ok [OF Cons.prems(1,2) e [THEN conjunct1] e [THEN conjunct2, THEN conjunct1] Bucket_stored]
  obtain s1 where s1: "Store_SaveState g x u s = Returns (s1, None)" "commits s1" "path s1 = path s"
    "download_items s1 u = Some (upsert (itob (FileID x)) (Leaf (encoded g x)) (map (stored g) l))"
    by blast
  from s1(4) have d1: "download_items s1 u = Some (map (stored g) (ins x l))"
    by (simp add: upsert_stored)
  from Cons.IH [OF s1(2) d1 vxs] s1(1,3) show ?case by auto
qed

lemma States_stored:
  assumes "download_items s u = Some (map (stored g) l)" "u \<noteq> []" "\<forall>st\<in>set l. valid_for g st"
  shows "Store_States g u s = Returns (filter (\<lambda>st. \<not> IsHidden st) l, None)"
  by (simp add: Store_States_eq [OF assms(1,2)] cursor_entries_stored
      States_loop_all [OF decodes_stored [OF assms(3)]] visible_stored [OF assms(3)])

lemma States_after_saves:
  assumes "commits s" "download_items s u = Some []" "u \<noteq> []" "\<forall>st\<in>set xs. valid_for g st"
  shows "\<exists>s'. SaveState_all g xs u s = Some s'
      \<and> Store_States g u s' = Returns (filter (\<lambda>st. \<not> IsHidden st) (saved xs), None)"
proof -
  from assms(2) have "download_items s u = Some (map (stored g) [])" by simp
  from SaveState_all_stored [OF assms(1) this assms(4)]
  obtain s' where s': "SaveState_all g xs u s = Some s'"
    "download_items s' u = Some (map (stored g) (saved xs))" by (auto simp: saved_def)
  have "\<forall>st\<in>set (saved xs). valid_for g st" using assms(4) set_saved [of xs] by auto
  from States_stored [OF s'(2) assms(3) this] s'(1) show ?thesis by auto
qed

lemma State_unsaved:
  assumes "commits s" "download_items s u = Some []" "\<forall>st\<in>set xs. valid_for g st"
    and "SaveState_all g xs u s = Some s'" "fid \<notin> FileID ` set xs"
  shows "Store_State g fid u s' = Returns (Inl ErrStateNotFound)"
proof -
  from assms(2) have "download_items s u = Some (map (stored g) [])" by simp
  from SaveState_all_stored [OF assms(1) this assms(3)] assms(4)
  have d: "download_items s' u = Some (map (stored g) (saved xs))" by (auto simp: saved_def)
  from assms(5) have "fid \<notin> FileID ` set (saved xs)" by (simp add: FileID_saved)
  then show ?thesis by (simp add: Store_State_eq [OF d] Get_stored_None)
qed

lemma saved_unique:
  "st \<in> set (saved xs) \<Longrightarrow> st' \<in> set (saved xs) \<Longrightarrow> FileID st = FileID st' \<Longrightarrow> st = st'"
proof -
  have "sorted_wrt (\<lambda>a b. FileID a < FileID b) l \<Longrightarrow> st \<in> set l \<Longrightarrow> st' \<in> set l
      \<Longrightarrow> FileID st = FileID st' \<Longrightarrow> st = st'" for l
    by (induction l) auto
  from this [OF sorted_saved] show "st \<in> set (saved xs) \<Longrightarrow> st' \<in> set (saved xs)
      \<Longrightarrow> FileID st = FileID st' \<Longrightarrow> st = st'" by blast
qed

text \<open>
  On any \<open>download-items\<close> bucket: no value under the key gives \<open>ErrStateNotFound\<close>, a
  value gives what decoding it gives, the error of the decoder when it does not decode.
\<close>

lemma State_by_key:
  assumes "download_items s u = Some dl"
  shows "(bucket_Get dl (itob fid) = None \<longrightarrow> Store_State g fid u s = Returns (Inl ErrStateNotFound))
       \<and> (\<forall>v. bucket_Get dl (itob fid) = Some v \<longrightarrow> Store_State g fid u s = Returns (Decode g v))"
  by (auto simp: Store_State_eq [OF assms] split: option.splits)

section \<open>The sample values\<close>

lemma unat_of_char: "unat (of_char c :: 8 word) = of_char c"
proof -
  have "(of_char c :: 8 word) = of_nat (of_char c)" by (simp add: of_nat_of_char)
  then show ?thesis by (simp only: unat_of_nat) simp
qed

lemma string_of_bytes_of: "string_of (bytes_of s) = s"
  by (induction s) (simp_all add: string_of_def bytes_of_def unat_of_char)

lemma sample_State_sel [simp]: "FileID (sample_State i h) = i" "IsHidden (sample_State i h) = h"
  by (simp_all add: sample_State_def)

lemma sample_valid_1: "valid_for sample_gob (sample_State 1 False)"
  by (simp add: valid_for_def sample_gob_def sample_State_def MaxValueSize_def)

lemma sample_valid_2: "valid_for sample_gob (sample_State 2 True)"
  by (simp add: valid_for_def sample_gob_def sample_State_def MaxValueSize_def)

lemma sample_valid_3: "valid_for sample_gob (sample_State 3 False)"
  by (simp add: valid_for_def sample_gob_def sample_State_def MaxValueSize_def)

lemma sample_valid_5: "valid_for sample_gob (sample_State 5 False)"
  by (simp add: valid_for_def sample_gob_def sample_State_def MaxValueSize_def)

lemma saved_123: "saved [sample_State 1 False, sample_State 2 True, sample_State 3 False] = [sample_State 1 False, sample_State 2 True, sample_State 3 False]"
  by (simp add: saved_def sample_State_def)

lemma saved_513: "saved [sample_State 5 False, sample_State 1 False, sample_State 3 False] = [sample_State 1 False, sample_State 3 False, sample_State 5 False]"
  by (simp add: saved_def sample_State_def)

lemma CreateBuckets_alice: "Store_CreateBuckets ''alice'' opened_Store = Returns (alice_Store, None)"
  by (simp add: Store_CreateBuckets_def Store_db_Update_def db_Update_def CreateBuckets_tx_def
      bucket_CreateBucketIfNotExists_def opened_Store_def alice_Store_def new_file_def
      defaultsBucket_bytes downloadItemsBucket_bytes watchedTorrentsBucket_bytes bytes_of_def)

lemma alice_Store_facts:
  "commits alice_Store" "download_items alice_Store ''alice'' = Some []"
  "namespace alice_Store ''alice'' = Some [(downloadItemsBucket, Nested []), (watchedTorrentsBucket, Nested [])]"
  "provisioned alice_Store ''alice''"
  by (simp_all add: commits_def download_items_def namespace_def provisioned_def alice_Store_def new_file_def
      bucket_Bucket_def names_distinct)

lemma damaged_Store_facts:
  "commits damaged_Store"
  "download_items damaged_Store ''alice'' = Some [(itob 1, Leaf [1, 0]), (itob 2, Leaf [255]), (itob 3, Leaf [3, 0])]"
  "provisioned damaged_Store ''alice''"
  by (simp_all add: commits_def download_items_def namespace_def provisioned_def damaged_Store_def new_file_def
      bucket_Bucket_def names_distinct)

section \<open>The properties of the specification\<close>

subsection \<open>C1: the configuration of a user who was never provisioned\<close>

text \<open>
  C1. The specification has \<open>Config\<close> return the computed default configuration for the
  empty user identifier and for every user who was never provisioned, given that the home
  directory of the host resolves. What the code does for such a user: on the store as \<open>Open\<close>
  leaves a new file, with a host whose home directory resolves, \<open>Config\<close> for the user
  \<open>bob\<close> panics. \<open>tx.Bucket\<close> gives nil for the missing bucket and \<open>Get\<close> reads
  its receiver; the branch that turns \<open>ErrConfigNotFound\<close> into the default is not reached.
\<close>

theorem Config_unprovisioned_panics:
  "Store_Open (\<lambda>p. Inr new_file) (NewStore ''sync.db'') = Returns (opened_Store, None)
   \<and> user_Current sample_host = Inr ''/home/alice''
   \<and> Store_Config sample_host g ''bob'' opened_Store = Panics"
  by (simp add: Open_new_file sample_host_def)
    (simp add: Store_Config_def Store_db_View_def db_View_def Config_tx_def
      bucket_Bucket_def opened_Store_def new_file_def defaultsBucket_bytes bytes_of_def)

subsection \<open>C2: the order of the keys\<close>

text \<open>
  C2, as it is stated, fails at a negative identifier: \<open>-1\<close> is below \<open>0\<close> as an
  \<open>int64\<close>, and its key (eight bytes \<open>0xFF\<close>) is not below the key of \<open>0\<close>.
\<close>

theorem itob_signed_order_counterexample: "(- 1 :: int64) <s 0 \<and> \<not> bytes_less (itob (- 1)) (itob 0)"
  by (simp add: itob_less)

text \<open>
  C2, amended. The key of \<open>a\<close> is below the key of \<open>b\<close> exactly when \<open>a\<close> is
  below \<open>b\<close> as unsigned 64-bit numbers; so the encoding keeps the order of any two
  identifiers of one sign, the non-negative ones among them, and puts the key of every
  negative identifier after the key of every non-negative one. Saving valid records for a
  provisioned user whose \<open>download-items\<close> bucket is empty and then listing returns the
  records that are not hidden, one for each identifier, ascending in the unsigned order of
  the identifiers, which is their numeric order when none of them is negative.
\<close>

theorem itob_unsigned_order_listing:
  assumes "commits s" "download_items s u = Some []" "u \<noteq> []" "\<forall>st\<in>set xs. valid_for g st"
  shows "(\<forall>a b. bytes_less (itob a) (itob b) = (a < b))
     \<and> (\<forall>a b. (0 \<le>s a) = (0 \<le>s b) \<longrightarrow> a <s b \<longrightarrow> bytes_less (itob a) (itob b))
     \<and> (\<forall>a b. \<not> 0 \<le>s a \<longrightarrow> 0 \<le>s b \<longrightarrow> bytes_less (itob b) (itob a))
     \<and> (\<exists>s'. SaveState_all g xs u s = Some s'
          \<and> Store_States g u s' = Returns (filter (\<lambda>st. \<not> IsHidden st) (saved xs), None)
          \<and> sorted_wrt (<) (map FileID (filter (\<lambda>st. \<not> IsHidden st) (saved xs)))
          \<and> ((\<forall>st\<in>set xs. 0 \<le>s FileID st) \<longrightarrow>
               sorted_wrt (<s) (map FileID (filter (\<lambda>st. \<not> IsHidden st) (saved xs)))))"
proof (intro conjI allI impI)
  fix a b :: int64
  show "bytes_less (itob a) (itob b) = (a < b)" by (rule itob_less)
next
  fix a b :: int64
  assume "(0 \<le>s a) = (0 \<le>s b)" "a <s b"
  then show "bytes_less (itob a) (itob b)" by (simp add: itob_less same_sign_less)
next
  fix a b :: int64
  assume "\<not> 0 \<le>s a" "0 \<le>s b"
  then show "bytes_less (itob b) (itob a)" by (simp add: itob_less negative_above)
next
  from States_after_saves [OF assms] obtain s' where
    s': "SaveState_all g xs u s = Some s'"
    "Store_States g u s' = Returns (filter (\<lambda>st. \<not> IsHidden st) (saved xs), None)" by blast
  have "(\<forall>st\<in>set xs. 0 \<le>s FileID st) \<longrightarrow>
      sorted_wrt (<s) (map FileID (filter (\<lambda>st. \<not> IsHidden st) (saved xs)))"
  proof
    assume "\<forall>st\<in>set xs. 0 \<le>s FileID st"
    with set_saved [of xs] have "\<forall>st\<in>set (saved xs). 0 \<le>s FileID st" by auto
    with sorted_saved show "sorted_wrt (<s) (map FileID (filter (\<lambda>st. \<not> IsHidden st) (saved xs)))"
      by (rule sorted_ids_signed)
  qed
  with s' sorted_ids [OF sorted_saved]
  show "\<exists>s'. SaveState_all g xs u s = Some s'
          \<and> Store_States g u s' = Returns (filter (\<lambda>st. \<not> IsHidden st) (saved xs), None)
          \<and> sorted_wrt (<) (map FileID (filter (\<lambda>st. \<not> IsHidden st) (saved xs)))
          \<and> ((\<forall>st\<in>set xs. 0 \<le>s FileID st) \<longrightarrow>
               sorted_wrt (<s) (map FileID (filter (\<lambda>st. \<not> IsHidden st) (saved xs))))"
    by blast
qed

text \<open>Saving the identifiers 5, 1 and 3 and listing yields 1, 3, 5.\<close>

theorem itob_unsigned_order_listing_witness:
  "commits alice_Store \<and> download_items alice_Store ''alice'' = Some [] \<and> ''alice'' \<noteq> []
   \<and> valid_for sample_gob (sample_State 5 False) \<and> valid_for sample_gob (sample_State 1 False)
   \<and> valid_for sample_gob (sample_State 3 False)
   \<and> (\<exists>s'. SaveState_all sample_gob [sample_State 5 False, sample_State 1 False, sample_State 3 False]
               ''alice'' alice_Store = Some s'
          \<and> Store_States sample_gob ''alice'' s'
              = Returns ([sample_State 1 False, sample_State 3 False, sample_State 5 False], None))"
proof -
  let ?xs = "[sample_State 5 False, sample_State 1 False, sample_State 3 False]"
  have v: "\<forall>st\<in>set ?xs. valid_for sample_gob st"
    by (simp add: sample_valid_5 sample_valid_1 sample_valid_3)
  have n: "''alice'' \<noteq> []" by simp
  from itob_unsigned_order_listing [OF alice_Store_facts(1,2) n v]
  have "\<exists>s'. SaveState_all sample_gob ?xs ''alice'' alice_Store = Some s'
      \<and> Store_States sample_gob ''alice'' s' = Returns (filter (\<lambda>st. \<not> IsHidden st) (saved ?xs), None)"
    by blast
  then have "\<exists>s'. SaveState_all sample_gob ?xs ''alice'' alice_Store = Some s'
      \<and> Store_States sample_gob ''alice'' s'
          = Returns ([sample_State 1 False, sample_State 3 False, sample_State 5 False], None)"
    by (simp add: saved_513 del: SaveState_all.simps)
  with n alice_Store_facts(1,2) sample_valid_5 sample_valid_1 sample_valid_3 show ?thesis by blast
qed

subsection \<open>C3: a failed provisioning in Open\<close>

text \<open>
  C3. The specification has \<open>Open\<close>, when the handle is acquired and the provisioning
  step fails, close the handle and return the provisioning error. What the code does: on a new file
  whose disk fails at the commit of the provisioning step, \<open>Open\<close> closes the handle and
  returns nil, the result of \<open>Close\<close>; the error of the provisioning step is dropped.
\<close>

theorem Open_returns_nil_after_failed_provisioning:
  "Store_Open (\<lambda>p. Inr faulty_disk_file) (NewStore ''sync.db'')
     = Returns (\<lparr>path = ''sync.db'', db = Some (faulty_disk_file\<lparr>db_opened := False\<rparr>)\<rparr>, None)"
  by (simp add: Store_Open_def NewStore_def new_file_def faulty_disk_file_def db_Update_def db_Close_def
      bucket_CreateBucketIfNotExists_def defaultsBucket_bytes)

subsection \<open>C4: saving a state for a user who was never provisioned\<close>

text \<open>
  C4. The specification has \<open>SaveState\<close> for a user whose namespace was never provisioned
  return an error and not crash. What the code does: on the store as \<open>Open\<close> leaves a new
  file, \<open>SaveState\<close> of any state for the user \<open>bob\<close> panics, with any encoding.
  \<open>tx.Bucket\<close> gives nil for the missing bucket and \<open>userBkt.Bucket\<close> reads its receiver.
\<close>

theorem SaveState_unprovisioned_panics:
  "Store_Open (\<lambda>p. Inr new_file) (NewStore ''sync.db'') = Returns (opened_Store, None)
   \<and> Store_SaveState g state ''bob'' opened_Store = Panics"
  by (simp add: Open_new_file)
    (simp add: Store_SaveState_def Store_db_Update_def db_Update_def SaveState_tx_def
      bucket_Bucket_def opened_Store_def new_file_def defaultsBucket_bytes bytes_of_def)

subsection \<open>C5: saving and fetching\<close>

text \<open>
  C5. For a provisioned user on a store whose disk is well, a valid state (one that the
  encoding gives back) saved with \<open>SaveState\<close> is what \<open>State\<close> returns for its
  identifier, and a valid configuration saved with \<open>SaveConfig\<close> is what \<open>Config\<close>
  returns. The keys written are taken not to hold nested buckets, which no operation of
  the store puts there.
\<close>

theorem save_then_fetch:
  assumes "commits s" "download_items s u = Some dl" "bucket_Bucket dl (itob (FileID st)) = None"
    and "valid_for g st"
    and "namespace s u = Some ub" "u \<noteq> []" "bucket_Bucket ub (bytes_of ''config'') = None"
    and "valid_for gc c"
  shows "(\<exists>s'. Store_SaveState g st u s = Returns (s', None)
            \<and> Store_State g (FileID st) u s' = Returns (Inr st))
       \<and> (\<exists>s'. Store_SaveConfig gc c u s = Returns (s', None)
            \<and> Store_Config h gc u s' = Returns (Inr c))"
proof
  note e = valid_forD [OF assms(4)]
  from Store_SaveState_ok [OF assms(1,2) e [THEN conjunct1] e [THEN conjunct2, THEN conjunct1] assms(3)]
  obtain s' where s': "Store_SaveState g st u s = Returns (s', None)"
    "download_items s' u = Some (upsert (itob (FileID st)) (Leaf (encoded g st)) dl)" by blast
  have "Store_State g (FileID st) u s' = Returns (Inr st)"
    by (simp add: Store_State_eq [OF s'(2)] Get_upsert_same e)
  with s'(1) show "\<exists>s'. Store_SaveState g st u s = Returns (s', None)
            \<and> Store_State g (FileID st) u s' = Returns (Inr st)" by blast
next
  note e = valid_forD [OF assms(8)]
  from Store_SaveConfig_ok [OF assms(1,5) e [THEN conjunct1] e [THEN conjunct2, THEN conjunct1] assms(7)]
  obtain s' where s': "Store_SaveConfig gc c u s = Returns (s', None)"
    "namespace s' u = Some (upsert (bytes_of ''config'') (Leaf (encoded gc c)) ub)" by blast
  have "Store_Config h gc u s' = Returns (Inr c)"
    by (simp add: Store_Config_eq [OF s'(2) assms(6)] Get_upsert_same e)
  with s'(1) show "\<exists>s'. Store_SaveConfig gc c u s = Returns (s', None)
            \<and> Store_Config h gc u s' = Returns (Inr c)" by blast
qed

theorem save_then_fetch_witness:
  "commits alice_Store \<and> download_items alice_Store ''alice'' = Some []
   \<and> bucket_Bucket [] (itob (FileID (sample_State 7 True))) = None
   \<and> valid_for sample_gob (sample_State 7 True)
   \<and> namespace alice_Store ''alice''
        = Some [(downloadItemsBucket, Nested []), (watchedTorrentsBucket, Nested [])]
   \<and> ''alice'' \<noteq> []
   \<and> bucket_Bucket [(downloadItemsBucket, Nested []), (watchedTorrentsBucket, Nested [])]
        (bytes_of ''config'') = None
   \<and> valid_for sample_Config_gob (sample_Config ''token'' False)
   \<and> (\<exists>s'. Store_SaveState sample_gob (sample_State 7 True) ''alice'' alice_Store = Returns (s', None)
          \<and> Store_State sample_gob 7 ''alice'' s' = Returns (Inr (sample_State 7 True)))
   \<and> (\<exists>s'. Store_SaveConfig sample_Config_gob (sample_Config ''token'' False) ''alice'' alice_Store
              = Returns (s', None)
          \<and> Store_Config sample_host sample_Config_gob ''alice'' s'
              = Returns (Inr (sample_Config ''token'' False)))"
proof -
  have a: "bucket_Bucket [] (itob (FileID (sample_State 7 True))) = None"
    by (simp add: bucket_Bucket_def)
  have b: "valid_for sample_gob (sample_State 7 True)"
    by (simp add: valid_for_def sample_gob_def sample_State_def MaxValueSize_def)
  have c: "''alice'' \<noteq> []" by simp
  have d: "bucket_Bucket [(downloadItemsBucket, Nested []), (watchedTorrentsBucket, Nested [])]
        (bytes_of ''config'') = None"
    by (simp add: bucket_Bucket_def names_distinct)
  have e: "valid_for sample_Config_gob (sample_Config ''token'' False)"
    by (simp add: valid_for_def sample_Config_gob_def string_of_bytes_of MaxValueSize_def)
      (simp add: sample_Config_def bytes_of_def)
  from save_then_fetch [OF alice_Store_facts(1,2) a b alice_Store_facts(3) c d e, of sample_host]
    alice_Store_facts(1,2,3) a b c d e
  show ?thesis by simp
qed

subsection \<open>C6: hidden records\<close>

text \<open>
  C6. After valid records are saved for a provisioned user whose \<open>download-items\<close>
  bucket was empty, listing returns exactly the saved records whose \<open>IsHidden\<close> flag is
  not set, in ascending order of the identifier, and every saved record, hidden or not, is
  still returned by \<open>State\<close>. For the records 1, 2 (hidden) and 3 the listing is 1, 3.
\<close>

theorem hidden_excluded_not_deleted:
  assumes "commits s" "download_items s u = Some []" "u \<noteq> []" "\<forall>st\<in>set xs. valid_for g st"
  shows "\<exists>s'. SaveState_all g xs u s = Some s'
      \<and> Store_States g u s' = Returns (filter (\<lambda>st. \<not> IsHidden st) (saved xs), None)
      \<and> (\<forall>st\<in>set (saved xs). Store_State g (FileID st) u s' = Returns (Inr st))"
proof -
  from assms(2) have "download_items s u = Some (map (stored g) [])" by simp
  from SaveState_all_stored [OF assms(1) this assms(4)]
  obtain s' where s': "SaveState_all g xs u s = Some s'"
    "download_items s' u = Some (map (stored g) (saved xs))" by (auto simp: saved_def)
  have v: "\<forall>st\<in>set (saved xs). valid_for g st" using assms(4) set_saved [of xs] by auto
  have "Store_State g (FileID st) u s' = Returns (Inr st)" if "st \<in> set (saved xs)" for st
    using that v by (simp add: Store_State_eq [OF s'(2)] Get_stored [OF sorted_saved] valid_forD)
  with States_stored [OF s'(2) assms(3) v] s'(1) show ?thesis by blast
qed

theorem hidden_excluded_not_deleted_witness:
  "commits alice_Store \<and> download_items alice_Store ''alice'' = Some [] \<and> ''alice'' \<noteq> []
   \<and> valid_for sample_gob (sample_State 1 False) \<and> valid_for sample_gob (sample_State 2 True)
   \<and> valid_for sample_gob (sample_State 3 False)
   \<and> (\<exists>s'. SaveState_all sample_gob [sample_State 1 False, sample_State 2 True, sample_State 3 False]
               ''alice'' alice_Store = Some s'
          \<and> Store_States sample_gob ''alice'' s' = Returns ([sample_State 1 False, sample_State 3 False], None)
          \<and> Store_State sample_gob 2 ''alice'' s' = Returns (Inr (sample_State 2 True)))"
proof -
  let ?xs = "[sample_State 1 False, sample_State 2 True, sample_State 3 False]"
  have v: "\<forall>st\<in>set ?xs. valid_for sample_gob st"
    by (simp add: sample_valid_1 sample_valid_2 sample_valid_3)
  have n: "''alice'' \<noteq> []" by simp
  from hidden_excluded_not_deleted [OF alice_Store_facts(1,2) n v]
  obtain s' where "SaveState_all sample_gob ?xs ''alice'' alice_Store = Some s'"
    "Store_States sample_gob ''alice'' s' = Returns (filter (\<lambda>st. \<not> IsHidden st) (saved ?xs), None)"
    "\<forall>st\<in>set (saved ?xs). Store_State sample_gob (FileID st) ''alice'' s' = Returns (Inr st)"
    by blast
  then have "SaveState_all sample_gob ?xs ''alice'' alice_Store = Some s'
      \<and> Store_States sample_gob ''alice'' s' = Returns ([sample_State 1 False, sample_State 3 False], None)
      \<and> Store_State sample_gob 2 ''alice'' s' = Returns (Inr (sample_State 2 True))"
    by (simp add: saved_123 del: SaveState_all.simps)
  with n alice_Store_facts(1,2) sample_valid_1 sample_valid_2 sample_valid_3 show ?thesis by blast
qed

subsection \<open>C7: provisioning again\<close>

text \<open>
  C7. \<open>CreateBuckets\<close> for a user who is provisioned returns and leaves the store as it
  was, with every bucket and every record in it; it returns nil when the disk is well.
\<close>

theorem CreateBuckets_again_unchanged:
  assumes "provisioned s u"
  shows "(\<exists>err. Store_CreateBuckets u s = Returns (s, err))
       \<and> (commits s \<and> u \<noteq> [] \<longrightarrow> Store_CreateBuckets u s = Returns (s, None))"
proof (cases "u = []")
  case True
  from provisionedD [OF assms] obtain d where d: "db s = Some d" "db_opened d" by blast
  have e: "s\<lparr>db := Some d\<rparr> = s" using d(1) by simp
  have "Store_CreateBuckets u s = Returns (s, Some ErrBucketNameRequired)"
    by (simp add: Store_CreateBuckets_def Store_db_Update_def db_Update_def d CreateBuckets_tx_def
        bucket_CreateBucketIfNotExists_def True bytes_of_def e)
  with True show ?thesis by simp
next
  case False
  from CreateBuckets_unchanged [OF assms False] show ?thesis
    by (auto simp: commits_def split: option.splits)
qed

theorem CreateBuckets_again_unchanged_witness:
  "provisioned damaged_Store ''alice'' \<and> commits damaged_Store \<and> ''alice'' \<noteq> []
   \<and> Store_CreateBuckets ''alice'' damaged_Store = Returns (damaged_Store, None)"
  using CreateBuckets_again_unchanged [OF damaged_Store_facts(3)] damaged_Store_facts(1,3) by simp

subsection \<open>C8: listing for no user\<close>

text \<open>
  C8. Listing the states of the empty user identifier returns the empty sequence and no
  error, whatever the store holds, and also when its handle is nil or closed: the method
  returns before it reads the handle.
\<close>

theorem States_empty_user: "Store_States g [] s = Returns ([], None)"
  by (simp add: Store_States_def)

subsection \<open>C9: a state that was not saved\<close>

text \<open>
  C9. After valid records are saved with \<open>SaveState\<close> for a provisioned user whose
  \<open>download-items\<close> bucket was empty, \<open>State\<close> returns \<open>ErrStateNotFound\<close> for
  every identifier that no saved record has, and returns the last record saved under the
  identifier for every identifier that one has: \<open>State\<close> returns a record exactly when
  that record is the one stored under the big-endian key of the identifier.
\<close>

theorem State_exactly_when_saved:
  assumes "commits s" "download_items s u = Some []" "\<forall>st\<in>set xs. valid_for g st"
  shows "\<exists>s'. SaveState_all g xs u s = Some s'
     \<and> (\<forall>fid. fid \<notin> FileID ` set xs \<longrightarrow> Store_State g fid u s' = Returns (Inl ErrStateNotFound))
     \<and> (\<forall>st\<in>set (saved xs). Store_State g (FileID st) u s' = Returns (Inr st))
     \<and> (\<forall>fid st. Store_State g fid u s' = Returns (Inr st) \<longleftrightarrow> st \<in> set (saved xs) \<and> FileID st = fid)"
proof -
  from assms(2) have "download_items s u = Some (map (stored g) [])" by simp
  from SaveState_all_stored [OF assms(1) this assms(3)]
  obtain s' where s': "SaveState_all g xs u s = Some s'"
    "download_items s' u = Some (map (stored g) (saved xs))" by (auto simp: saved_def)
  have v: "\<forall>st\<in>set (saved xs). valid_for g st" using assms(3) set_saved [of xs] by auto
  have nf: "Store_State g fid u s' = Returns (Inl ErrStateNotFound)" if "fid \<notin> FileID ` set xs" for fid
    using that by (rule State_unsaved [OF assms s'(1)])
  have f: "Store_State g (FileID st) u s' = Returns (Inr st)" if "st \<in> set (saved xs)" for st
    using that v by (simp add: Store_State_eq [OF s'(2)] Get_stored [OF sorted_saved] valid_forD)
  have e: "(Store_State g fid u s' = Returns (Inr st)) = (st \<in> set (saved xs) \<and> FileID st = fid)" for fid st
  proof (cases "fid \<in> FileID ` set xs")
    case False
    then have "fid \<notin> FileID ` set (saved xs)" by (simp add: FileID_saved)
    with nf [OF False] show ?thesis by auto
  next
    case True
    then have "fid \<in> FileID ` set (saved xs)" by (simp add: FileID_saved)
    then obtain st0 where st0: "st0 \<in> set (saved xs)" "FileID st0 = fid" by auto
    from f [OF st0(1)] st0(2) have "Store_State g fid u s' = Returns (Inr st0)" by simp
    with st0 saved_unique [of st xs st0] show ?thesis by auto
  qed
  from s'(1) nf f e show ?thesis by blast
qed

theorem State_exactly_when_saved_witness:
  "commits alice_Store \<and> download_items alice_Store ''alice'' = Some []
   \<and> valid_for sample_gob (sample_State 1 False) \<and> valid_for sample_gob (sample_State 2 True)
   \<and> (\<exists>s'. SaveState_all sample_gob [sample_State 1 False, sample_State 2 True] ''alice'' alice_Store = Some s'
          \<and> Store_State sample_gob 99 ''alice'' s' = Returns (Inl ErrStateNotFound)
          \<and> Store_State sample_gob 1 ''alice'' s' = Returns (Inr (sample_State 1 False))
          \<and> Store_State sample_gob 2 ''alice'' s' = Returns (Inr (sample_State 2 True))
          \<and> Store_State sample_gob 2 ''alice'' s' \<noteq> Returns (Inr (sample_State 1 False)))"
proof -
  let ?xs = "[sample_State 1 False, sample_State 2 True]"
  have v: "\<forall>st\<in>set ?xs. valid_for sample_gob st"
    by (simp add: sample_valid_1 sample_valid_2)
  have sv: "saved ?xs = ?xs" by (simp add: saved_def)
  from State_exactly_when_saved [OF alice_Store_facts(1,2) v]
  obtain s' where s': "SaveState_all sample_gob ?xs ''alice'' alice_Store = Some s'"
    "\<forall>fid. fid \<notin> FileID ` set ?xs \<longrightarrow> Store_State sample_gob fid ''alice'' s' = Returns (Inl ErrStateNotFound)"
    "\<forall>st\<in>set (saved ?xs). Store_State sample_gob (FileID st) ''alice'' s' = Returns (Inr st)"
    by blast
  from s'(2) have a: "Store_State sample_gob 99 ''alice'' s' = Returns (Inl ErrStateNotFound)" by simp
  from s'(3) have b: "Store_State sample_gob 1 ''alice'' s' = Returns (Inr (sample_State 1 False))"
    "Store_State sample_gob 2 ''alice'' s' = Returns (Inr (sample_State 2 True))"
    by (simp_all add: sv)
  from b(2) have c: "Store_State sample_gob 2 ''alice'' s' \<noteq> Returns (Inr (sample_State 1 False))"
    by (simp add: sample_State_def)
  from s'(1) a b c alice_Store_facts(1,2) sample_valid_1 sample_valid_2 show ?thesis by blast
qed

subsection \<open>C10: a record that does not decode\<close>

text \<open>
  C10. \<open>States\<close> decodes each value before it looks at the flag. When the value of an
  entry of the \<open>download-items\<close> bucket does not decode, and every value before it does,
  the listing stops there: \<open>States\<close> returns the error of the decoder, beside the
  visible records that came before and none that come after.
\<close>

theorem States_aborts_on_corrupt_record:
  assumes "download_items s u = Some dl" "u \<noteq> []"
    and "cursor_entries dl = pre @ (k, v) # post" "list_all (decodes g) pre" "Decode g v = Inl err"
  shows "Store_States g u s = Returns (visible g pre, Some err)"
  by (simp add: Store_States_eq [OF assms(1,2)] assms(3) States_loop_fail [OF assms(4,5)])

theorem States_aborts_on_corrupt_record_witness:
  "download_items damaged_Store ''alice''
      = Some [(itob 1, Leaf [1, 0]), (itob 2, Leaf [255]), (itob 3, Leaf [3, 0])]
   \<and> ''alice'' \<noteq> []
   \<and> cursor_entries [(itob 1, Leaf [1, 0]), (itob 2, Leaf [255]), (itob 3, Leaf [3, 0])]
       = [(itob 1, [1, 0])] @ (itob 2, [255]) # [(itob 3, [3, 0])]
   \<and> list_all (decodes sample_gob) [(itob 1, [1, 0])]
   \<and> Decode sample_gob [255] = Inl (Failure ''unexpected EOF'')
   \<and> Store_States sample_gob ''alice'' damaged_Store
       = Returns ([sample_State 1 False], Some (Failure ''unexpected EOF''))"
proof -
  have a: "''alice'' \<noteq> []" by simp
  have b: "cursor_entries [(itob 1, Leaf [1, 0]), (itob 2, Leaf [255]), (itob 3, Leaf [3, 0])]
       = [(itob 1, [1, 0])] @ (itob 2, [255]) # [(itob 3, [3, 0])]"
    by (simp add: cursor_entries_def)
  have c: "list_all (decodes sample_gob) [(itob 1, [1, 0])]" by (simp add: sample_gob_def)
  have d: "Decode sample_gob [255] = Inl (Failure ''unexpected EOF'')" by (simp add: sample_gob_def)
  have e: "visible sample_gob [(itob 1, [1, 0])] = [sample_State 1 False]"
    by (simp add: sample_gob_def sample_State_def)
  from States_aborts_on_corrupt_record [OF damaged_Store_facts(2) a b c d] damaged_Store_facts(2) a b c d e
  show ?thesis by simp
qed

end
